theory Spec2Isabelle
  imports Main "HOL-Library.AList" "HOL-Library.Sublist"
begin

section \<open>The recipe \<open>infra/bots/recipes/swarm_infra.py\<close>\<close>

subsection \<open>Values, paths, exceptions\<close>

text \<open>
  A recipe-engine \<open>Path\<close> is a named base directory and the pieces joined onto it:
  \<open>api.path['start_dir'].join('cache', 'gopath')\<close> is
  \<open>Path ''start_dir'' [''cache'', ''gopath'']\<close>.
\<close>

datatype path = Path string "string list"

fun join :: "path \<Rightarrow> string list \<Rightarrow> path" where
  "join (Path b ps) qs = Path b (ps @ qs)"

text \<open>The values the recipe puts into command lines and into the environment dict.\<close>

datatype val = Str string | PathV path

text \<open>
  The exceptions of the recipe: \<open>StepFailure\<close> is \<open>api.step.StepFailure\<close>, the only
  one \<open>retry\<close> catches; \<open>OtherError\<close> is any other exception a step may raise;
  \<open>TypeError\<close>, \<open>IndexError\<close> and \<open>KeyError\<close> are the ones Python itself raises in
  the recipe's own code.
\<close>

datatype exn = StepFailure string | OtherError string | TypeError | IndexError | KeyError

datatype result = Returned | Raised exn

fun is_StepFailure :: "exn \<Rightarrow> bool" where
  "is_StepFailure (StepFailure m) = True"
| "is_StepFailure e = False"

subsection \<open>Steps, the recipe api and the run state\<close>

text \<open>
  One call of \<open>api.step\<close>: its name, its command line, and the working directory and
  environment of the enclosing \<open>api.context\<close> (no \<open>env\<close> argument: \<open>None\<close>).
\<close>

record step_call =
  step_name :: string
  step_cmd :: "val list"
  step_cwd :: "path option"
  step_env :: "(string \<times> val) list option"

text \<open>
  What the recipe reads from \<open>api\<close>. \<open>step_outcome api n c\<close> is what the call \<open>c\<close> does
  when it is the \<open>n\<close>-th call of \<open>api.step\<close> of the run (counted from 0): it returns or
  raises. \<open>path_str\<close> is \<open>str\<close> of a \<open>Path\<close> under the current \<open>base_paths\<close>.
\<close>

record api =
  pathsep :: string
  path_str :: "(string \<times> string list) list \<Rightarrow> path \<Rightarrow> string"
  properties :: "(string \<times> string) list"
  step_outcome :: "nat \<Rightarrow> step_call \<Rightarrow> result"

text \<open>
  What the run changes: the dict \<open>api.path.c.base_paths\<close>, the dict bound to the local
  variable \<open>env\<close> (empty until line 64 binds it), and the steps run so far, each with
  its outcome.
\<close>

record state =
  base_paths :: "(string \<times> string list) list"
  env :: "(string \<times> val) list"
  step_log :: "(step_call \<times> result) list"

type_synonym prog = "state \<Rightarrow> result \<times> state"

text \<open>Statement sequencing: an exception of the first statement skips the second.\<close>

definition seq :: "prog \<Rightarrow> prog \<Rightarrow> prog" where
  "seq p q s = (case p s of (Returned, s') \<Rightarrow> q s' | (Raised e, s') \<Rightarrow> (Raised e, s'))"

fun seqs :: "prog list \<Rightarrow> prog" where
  "seqs [] s = (Returned, s)"
| "seqs (p # ps) s = seq p (seqs ps) s"

text \<open>
  \<open>try: p finally: f\<close>. The \<open>finally\<close> block runs whatever \<open>p\<close> did; when it returns,
  the outcome of \<open>p\<close> stands, and when it raises, its exception is the one that
  propagates.
\<close>

definition try_finally :: "prog \<Rightarrow> prog \<Rightarrow> prog" where
  "try_finally p f s =
     (case p s of (r, s') \<Rightarrow>
        (case f s' of (Returned, s'') \<Rightarrow> (r, s'') | (Raised e, s'') \<Rightarrow> (Raised e, s'')))"

text \<open>\<open>api.step\<close>: runs the call, records it with its outcome.\<close>

definition step :: "api \<Rightarrow> step_call \<Rightarrow> prog" where
  "step a c s =
     (let r = step_outcome a (length (step_log s)) c
      in (r, s\<lparr>step_log := step_log s @ [(c, r)]\<rparr>))"

subsection \<open>\<open>retry\<close> (lines 24 to 33)\<close>

text \<open>
  The loop of \<open>retry\<close> with \<open>n\<close> iterations left and the local \<open>exc\<close>. A step that
  returns ends the function (\<open>return\<close>); a \<open>StepFailure\<close> is kept in \<open>exc\<close> and the loop
  goes on; any other exception propagates. The loop never breaks, so its \<open>else\<close> branch
  runs when the iterations are used up: \<open>raise exc\<close>, which is a \<open>TypeError\<close> while
  \<open>exc\<close> is still \<open>None\<close>.
\<close>

fun retry_loop :: "api \<Rightarrow> nat \<Rightarrow> step_call \<Rightarrow> exn option \<Rightarrow> prog" where
  "retry_loop a 0 c exc s =
     (case exc of None \<Rightarrow> (Raised TypeError, s) | Some e \<Rightarrow> (Raised e, s))"
| "retry_loop a (Suc n) c exc s =
     (case step a c s of
        (Returned, s') \<Rightarrow> (Returned, s')
      | (Raised e, s') \<Rightarrow>
          if is_StepFailure e then retry_loop a n c (Some e) s' else (Raised e, s'))"

text \<open>\<open>range(attempts)\<close> is empty for \<open>attempts \<le> 0\<close>.\<close>

definition retry :: "api \<Rightarrow> int \<Rightarrow> step_call \<Rightarrow> prog" where
  "retry a attempts c s = retry_loop a (nat attempts) c None s"

subsection \<open>Strings and dicts of Python\<close>

text \<open>\<open>sub in s\<close> on strings: \<open>sub\<close> occurs in \<open>s\<close> as a contiguous block.\<close>

fun str_in :: "string \<Rightarrow> string \<Rightarrow> bool" where
  "str_in sub [] = (sub = [])"
| "str_in sub (c # cs) = (prefix sub (c # cs) \<or> str_in sub cs)"

text \<open>\<open>sep.join(xs)\<close>.\<close>

fun str_join :: "string \<Rightarrow> string list \<Rightarrow> string" where
  "str_join sep [] = []"
| "str_join sep [x] = x"
| "str_join sep (x # y # ys) = x @ sep @ str_join sep (y # ys)"

text \<open>\<open>env[k] = v\<close>: the key keeps its place when it is there, and is added otherwise.\<close>

definition set_env :: "string \<Rightarrow> val \<Rightarrow> prog" where
  "set_env k v s = (Returned, s\<lparr>env := AList.update k v (env s)\<rparr>)"

definition skip :: prog where
  "skip s = (Returned, s)"

fun for_each :: "'a list \<Rightarrow> ('a \<Rightarrow> prog) \<Rightarrow> prog" where
  "for_each [] body s = (Returned, s)"
| "for_each (x # xs) body s = seq (body x) (for_each xs body) s"

subsection \<open>\<open>RunSteps\<close> (lines 36 to 141)\<close>

definition call :: "path \<Rightarrow> (string \<times> val) list option \<Rightarrow> string \<Rightarrow> val list \<Rightarrow> step_call" where
  "call cwd e name cmd = \<lparr>step_name = name, step_cmd = cmd, step_cwd = Some cwd, step_env = e\<rparr>"

text \<open>The locals of lines 49 to 53 and 102, and \<open>api.path['depot_tools']\<close>.\<close>

definition start_dir :: path where "start_dir = Path ''start_dir'' []"
definition gopath :: path where "gopath = join start_dir [''cache'', ''gopath'']"
definition infra_dir :: path where "infra_dir = join start_dir [''buildbot'']"
definition go_cache :: path where "go_cache = join start_dir [''cache'', ''go_cache'']"
definition go_root :: path where "go_root = join start_dir [''go'', ''go'']"
definition go_bin :: path where "go_bin = join go_root [''bin'']"
definition run_emulators :: path where
  "run_emulators = join infra_dir [''scripts'', ''run_emulators'', ''run_emulators'']"
definition depot_tools :: path where "depot_tools = Path ''depot_tools'' []"

text \<open>
  Lines 40 to 47: drop a last component \<open>k\<close> of \<open>base_paths['start_dir']\<close>, then set
  \<open>base_paths['depot_tools']\<close>. Reading a key that is not there is a \<open>KeyError\<close>, and
  \<open>[-1]\<close> of an empty tuple an \<open>IndexError\<close>.
\<close>

definition hack_start_dir :: prog where
  "hack_start_dir s =
     (case map_of (base_paths s) ''start_dir'' of
        None \<Rightarrow> (Raised KeyError, s)
      | Some sd \<Rightarrow>
          if sd = [] then (Raised IndexError, s)
          else if last sd = ''k''
          then (Returned, s\<lparr>base_paths := AList.update ''start_dir'' (butlast sd) (base_paths s)\<rparr>)
          else (Returned, s))"

definition set_depot_tools :: prog where
  "set_depot_tools s =
     (case map_of (base_paths s) ''start_dir'' of
        None \<Rightarrow> (Raised KeyError, s)
      | Some sd \<Rightarrow>
          (Returned, s\<lparr>base_paths :=
             AList.update ''depot_tools'' (sd @ [''recipe_bundle'', ''depot_tools'']) (base_paths s)\<rparr>))"

text \<open>Lines 57 to 61: the three git steps, in \<open>infra_dir\<close>, with no \<open>env\<close>.\<close>

definition init_git :: "api \<Rightarrow> prog" where
  "init_git a = seqs [
     step a (call infra_dir None ''git init'' [Str ''git'', Str ''init'']),
     step a (call infra_dir None ''git add'' [Str ''git'', Str ''add'', Str ''.'']),
     step a (call infra_dir None ''git commit''
       [Str ''git'', Str ''commit'', Str ''-m'', Str ''Fake commit to satisfy recipe tests''])]"

text \<open>Lines 64 to 81: the dict literal, and its binding to \<open>env\<close>.\<close>

definition base_env :: "api \<Rightarrow> (string \<times> string list) list \<Rightarrow> (string \<times> val) list" where
  "base_env a bp = [
     (''CHROME_HEADLESS'', Str ''1''),
     (''DOCKER_CONFIG'', Str ''/home/chrome-bot/.docker''),
     (''GOCACHE'', PathV go_cache),
     (''GOFLAGS'', Str ''-mod=readonly''),
     (''GOROOT'', PathV go_root),
     (''GOPATH'', PathV gopath),
     (''GIT_USER_AGENT'', Str ''git/1.9.1''),
     (''PATH'', Str (str_join (pathsep a) [
        path_str a bp go_bin,
        path_str a bp (join gopath [''bin'']),
        path_str a bp (join start_dir [''gcloud_linux'', ''bin'']),
        path_str a bp (join start_dir [''protoc'', ''bin'']),
        path_str a bp (join start_dir [''node'', ''node'', ''bin'']),
        path_str a bp (join start_dir [''cockroachdb'']),
        ''%(PATH)s'']))]"

definition bind_env :: "api \<Rightarrow> prog" where
  "bind_env a s = (Returned, s\<lparr>env := base_env a (base_paths s)\<rparr>)"

definition install_targets :: "string list" where
  "install_targets = [
     ''github.com/golang/protobuf/protoc-gen-go'',
     ''github.com/kisielk/errcheck'',
     ''golang.org/x/tools/cmd/goimports'',
     ''golang.org/x/tools/cmd/stringer'',
     ''github.com/GeertJohan/go.rice/rice'',
     ''github.com/twitchtv/twirp/protoc-gen-twirp'',
     ''go.larrymyers.com/protoc-gen-twirp_typescript'']"

text \<open>Lines 82 to 98, in \<open>infra_dir\<close> with \<open>env\<close>.\<close>

definition fetch_deps :: "api \<Rightarrow> prog" where
  "fetch_deps a = seqs [
     (\<lambda>s. step a (call infra_dir (Some (env s)) ''which go'' [Str ''which'', Str ''go'']) s),
     (\<lambda>s. retry a 3
        (call infra_dir (Some (env s)) ''go mod download'' [Str ''go'', Str ''mod'', Str ''download'']) s),
     for_each install_targets (\<lambda>target s.
        step a (call infra_dir (Some (env s)) (''go install '' @ target)
          [Str ''go'', Str ''install'', Str ''-v'', Str target]) s)]"

text \<open>Lines 103 to 110.\<close>

definition start_emulators :: "api \<Rightarrow> string \<Rightarrow> prog" where
  "start_emulators a builder =
     (if str_in ''Large'' builder \<or> str_in ''Race'' builder
      then seqs [
        (\<lambda>s. step a (call infra_dir (Some (env s)) ''start the cloud emulators''
           [PathV run_emulators, Str ''start'']) s),
        set_env ''DATASTORE_EMULATOR_HOST'' (Str ''localhost:8891''),
        set_env ''BIGTABLE_EMULATOR_HOST'' (Str ''localhost:8892''),
        set_env ''PUBSUB_EMULATOR_HOST'' (Str ''localhost:8893''),
        set_env ''FIRESTORE_EMULATOR_HOST'' (Str ''localhost:8894''),
        set_env ''COCKROACHDB_EMULATOR_HOST'' (Str ''localhost:8895'')]
      else skip)"

text \<open>
  Lines 113 to 115. \<open>env['PATH']\<close> is read back: a missing key is a \<open>KeyError\<close>, and
  \<open>join\<close> of a value that is not a string a \<open>TypeError\<close>.
\<close>

definition test_env :: "api \<Rightarrow> prog" where
  "test_env a = seqs [
     set_env ''SKIABOT_TEST_DEPOT_TOOLS'' (PathV depot_tools),
     (\<lambda>s. case map_of (env s) ''PATH'' of
        None \<Rightarrow> (Raised KeyError, s)
      | Some (PathV p) \<Rightarrow> (Raised TypeError, s)
      | Some (Str p) \<Rightarrow>
          set_env ''PATH''
            (Str (str_join (pathsep a) [p, path_str a (base_paths s) depot_tools])) s)]"

text \<open>Lines 121 to 129: the command line of \<open>run_unittests\<close>.\<close>

definition unittests_cmd :: "string \<Rightarrow> val list" where
  "unittests_cmd builder =
     [Str ''go'', Str ''run'', Str ''./run_unittests.go'', Str ''--alsologtostderr''] @
     (if str_in ''Race'' builder
      then [Str ''--race'', Str ''--large'', Str ''--medium'', Str ''--small'']
      else if str_in ''Large'' builder then [Str ''--large'']
      else if str_in ''Medium'' builder then [Str ''--medium'']
      else [Str ''--small''])"

text \<open>Lines 117 to 136.\<close>

definition run_tests :: "api \<Rightarrow> string \<Rightarrow> prog" where
  "run_tests a builder =
     (if str_in ''Build'' builder
      then (\<lambda>s. step a (call infra_dir (Some (env s)) ''make all'' [Str ''make'', Str ''all'']) s)
      else try_finally
        (\<lambda>s. step a (call infra_dir (Some (env s)) ''run_unittests'' (unittests_cmd builder)) s)
        (if str_in ''Large'' builder \<or> str_in ''Race'' builder
         then (\<lambda>s. step a (call infra_dir (Some (env s)) ''stop the cloud emulators''
                 [PathV run_emulators, Str ''stop'']) s)
         else skip))"

text \<open>Lines 139 to 141.\<close>

definition sanity_check :: "api \<Rightarrow> prog" where
  "sanity_check a =
     step a (call infra_dir None ''git diff go.mod''
       [Str ''git'', Str ''diff'', Str ''--no-ext-diff'', Str ''--exit-code'', Str ''go.mod''])"

text \<open>Lines 101 to 141, once \<open>api.properties['buildername']\<close> has been read.\<close>

definition with_builder :: "api \<Rightarrow> string \<Rightarrow> prog" where
  "with_builder a builder =
     seqs [start_emulators a builder, test_env a, run_tests a builder, sanity_check a]"

definition RunSteps :: "api \<Rightarrow> prog" where
  "RunSteps a = seqs [
     hack_start_dir,
     set_depot_tools,
     init_git a,
     bind_env a,
     fetch_deps a,
     (\<lambda>s. case map_of (properties a) ''buildername'' of
        None \<Rightarrow> (Raised KeyError, s)
      | Some builder \<Rightarrow> with_builder a builder s)]"

subsection \<open>Test inputs\<close>

text \<open>
  The inputs of \<open>GenTests\<close>: a builder name in the properties and an outcome for every
  step call. \<open>render\<close> writes a path as its base and pieces joined by \<open>/\<close>; the state
  is the one of the \<open>kitchen\<close> path configuration at entry, where \<open>start_dir\<close> ends with
  \<open>k\<close>, with \<open>env\<close> not yet bound and no step run.
\<close>

definition render :: "(string \<times> string list) list \<Rightarrow> path \<Rightarrow> string" where
  "render bp p = (case p of Path b ps \<Rightarrow> str_join ''/'' (b # ps))"

definition test_api :: "string \<Rightarrow> (nat \<Rightarrow> step_call \<Rightarrow> result) \<Rightarrow> api" where
  "test_api builder outcome =
     \<lparr>pathsep = '':'', path_str = render,
      properties = [(''buildername'', builder)], step_outcome = outcome\<rparr>"

definition kitchen :: state where
  "kitchen = \<lparr>base_paths = [(''start_dir'', [''b'', ''work'', ''k''])], env = [], step_log = []\<rparr>"

definition some_call :: step_call where
  "some_call = call infra_dir None ''go mod download'' [Str ''go'', Str ''mod'', Str ''download'']"

text \<open>
  Step outcomes: every step returns; the first call of the run fails and the later ones
  return; every call fails; the calls of one step fail (the \<open>step_data\<close> of \<open>GenTests\<close>,
  for every attempt); the test step and the stop of the emulators both fail.
\<close>

definition always_ok :: "nat \<Rightarrow> step_call \<Rightarrow> result" where
  "always_ok n c = Returned"

definition flaky_once :: "nat \<Rightarrow> step_call \<Rightarrow> result" where
  "flaky_once n c = (if n < 1 then Raised (StepFailure ''transient'') else Returned)"

definition always_down :: "nat \<Rightarrow> step_call \<Rightarrow> result" where
  "always_down n c = Raised (StepFailure ''down'')"

definition download_fails :: "nat \<Rightarrow> step_call \<Rightarrow> result" where
  "download_fails n c =
     (if step_name c = ''go mod download'' then Raised (StepFailure ''go mod download'')
      else Returned)"

definition tests_and_stop_fail :: "nat \<Rightarrow> step_call \<Rightarrow> result" where
  "tests_and_stop_fail n c =
     (if step_name c = ''run_unittests'' then Raised (StepFailure ''run_unittests'')
      else if step_name c = ''stop the cloud emulators''
      then Raised (StepFailure ''stop the cloud emulators'')
      else Returned)"

section \<open>The presubmit checks \<open>PRESUBMIT.py\<close>\<close>

text \<open>
  Strings are the byte strings of Python 2, which the script is written for: a
  \<open>char\<close> is a byte. The functions \<open>_MakeFileFilter\<close>, \<open>_CheckNonAscii\<close> and
  \<open>_CheckBannedGoAPIs\<close> are named here without their leading underscore.
\<close>

subsection \<open>The presubmit api\<close>

text \<open>An affected file: its local path and its changed lines with their numbers.\<close>

record affected_file =
  LocalPath :: string
  ChangedContents :: "(nat \<times> string) list"

text \<open>
  Results are values of a type \<open>'r\<close> that \<open>output_api\<close> builds:
  \<open>PresubmitPromptWarning message long_text\<close>.
\<close>

record 'r output_api =
  PresubmitPromptWarning :: "string \<Rightarrow> string \<Rightarrow> 'r"

text \<open>
  What the script uses of \<open>input_api\<close>. A compiled regular expression is kept as its
  pattern; \<open>re_search p line\<close> is the text that \<open>re.compile(p).search(line)\<close> matches,
  if any. The canned checks are those of \<open>input_api.canned_checks\<close>, with the arguments
  the script passes after \<open>input_api\<close> itself. \<open>open_lines path\<close> is what
  \<open>open(path, 'r+b')\<close> gives: the lines of the file, each with its line end, or nothing
  when the file cannot be opened.
\<close>

record 'r input_api =
  FilterSourceFile :: "affected_file \<Rightarrow> string list \<Rightarrow> string list \<Rightarrow> bool"
  AffectedSourceFiles :: "(affected_file \<Rightarrow> bool) \<Rightarrow> affected_file list"
  re_search :: "string \<Rightarrow> string \<Rightarrow> string option"
  DEFAULT_BLACK_LIST :: "string list"
  RunPylint :: "'r output_api \<Rightarrow> string list \<Rightarrow> string list \<Rightarrow> 'r list"
  CheckLongLines :: "'r output_api \<Rightarrow> nat \<Rightarrow> (affected_file \<Rightarrow> bool) \<Rightarrow> 'r list"
  CheckChangeTodoHasOwner :: "'r output_api \<Rightarrow> (affected_file \<Rightarrow> bool) \<Rightarrow> 'r list"
  CheckChangeHasNoStrayWhitespace :: "'r output_api \<Rightarrow> (affected_file \<Rightarrow> bool) \<Rightarrow> 'r list"
  CheckChangeHasNoTabs :: "'r output_api \<Rightarrow> 'r list"
  open_lines :: "string \<Rightarrow> string list option"

datatype io_error = IOError string

subsection \<open>Strings\<close>

definition backslash :: char where "backslash = CHR 0x5C"
definition newline :: string where "newline = [CHR 0x0A]"

text \<open>\<open>str(n)\<close> of a number that is not negative.\<close>

definition digit :: "nat \<Rightarrow> char" where
  "digit d = char_of (48 + d)"

function str_nat :: "nat \<Rightarrow> string" where
  "str_nat n = (if n < 10 then [digit n] else str_nat (n div 10) @ [digit (n mod 10)])"
  by pat_completeness auto
termination
  by (relation "measure id") auto

declare str_nat.simps [simp del]

text \<open>\<open>s.rjust(width)\<close>, \<open>s.rstrip()\<close> and \<open>line.decode('ascii')\<close> not raising.\<close>

definition rjust :: "nat \<Rightarrow> string \<Rightarrow> string" where
  "rjust width s = replicate (width - length s) CHR '' '' @ s"

definition is_space :: "char \<Rightarrow> bool" where
  "is_space c = (c \<in> {CHR '' '', CHR 0x09, CHR 0x0A, CHR 0x0B, CHR 0x0C, CHR 0x0D})"

definition rstrip :: "string \<Rightarrow> string" where
  "rstrip s = rev (dropWhile is_space (rev s))"

definition decodes_ascii :: "string \<Rightarrow> bool" where
  "decodes_ascii line = list_all (\<lambda>c. (of_char c :: nat) < 128) line"

subsection \<open>\<open>_MakeFileFilter\<close> (lines 12 to 33)\<close>

text \<open>
  An extension list that is \<open>None\<close> or empty is false in \<open>if include_extensions:\<close>. The
  pattern \<open>r'.+\.%s$' % ext\<close> has a backslash before the dot.
\<close>

definition ext_pattern :: "string \<Rightarrow> string" where
  "ext_pattern ext = ''.+'' @ [backslash] @ ''.'' @ ext @ ''$''"

definition MakeFileFilter ::
  "'r input_api \<Rightarrow> string list option \<Rightarrow> string list option \<Rightarrow> affected_file \<Rightarrow> bool" where
  "MakeFileFilter input_api include_extensions exclude_extensions =
     (let white_list = (case include_extensions of
            None \<Rightarrow> [''.+'']
          | Some exts \<Rightarrow> if exts = [] then [''.+''] else map ext_pattern exts);
          black_list = (case exclude_extensions of
            None \<Rightarrow> [''^$'']
          | Some exts \<Rightarrow> if exts = [] then [''^$''] else map ext_pattern exts)
      in (\<lambda>x. FilterSourceFile input_api x white_list black_list))"

subsection \<open>\<open>_CheckNonAscii\<close> (lines 35 to 73)\<close>

definition FILE_EXTENSIONS :: "string list" where
  "FILE_EXTENSIONS = [''bat'', ''cfg'', ''cmd'', ''conf'', ''css'', ''gyp'', ''gypi'', ''htm'',
     ''html'', ''js'', ''json'', ''ps1'', ''py'', ''sh'', ''tac'', ''yaml'']"

text \<open>
  Lines 50 to 55: the loop over the lines of one file, with \<open>total_lines\<close> so far; it
  gives the lines that do not decode, each with its number and without its trailing
  white space.
\<close>

fun scan_lines :: "nat \<Rightarrow> string list \<Rightarrow> (nat \<times> string) list" where
  "scan_lines total_lines [] = []"
| "scan_lines total_lines (line # rest) =
     (if decodes_ascii line then scan_lines (total_lines + 1) rest
      else (total_lines + 1, rstrip line) # scan_lines (total_lines + 1) rest)"

text \<open>
  Lines 45 to 59: the loop over the affected files, with \<open>files_with_unicode_lines\<close> and
  \<open>max_lines_in_any_file\<close> so far. A file that cannot be opened ends it with the error.
\<close>

fun scan_files ::
  "'r input_api \<Rightarrow> affected_file list \<Rightarrow> (string \<times> (nat \<times> string) list) list \<Rightarrow> nat \<Rightarrow>
   io_error + (string \<times> (nat \<times> string) list) list \<times> nat" where
  "scan_files input_api [] files_with_unicode_lines max_lines_in_any_file =
     Inr (files_with_unicode_lines, max_lines_in_any_file)"
| "scan_files input_api (affected_file # rest) files_with_unicode_lines max_lines_in_any_file =
     (let affected_filepath = LocalPath affected_file
      in case open_lines input_api affected_filepath of
        None \<Rightarrow> Inl (IOError affected_filepath)
      | Some f \<Rightarrow>
          (let unicode_lines = scan_lines 0 f; total_lines = length f
           in if unicode_lines \<noteq> []
              then scan_files input_api rest
                (files_with_unicode_lines @ [(affected_filepath, unicode_lines)])
                (if total_lines > max_lines_in_any_file then total_lines
                 else max_lines_in_any_file)
              else scan_files input_api rest files_with_unicode_lines max_lines_in_any_file))"

text \<open>Lines 63 to 68: the text of the warning.\<close>

fun lines_text :: "nat \<Rightarrow> (nat \<times> string) list \<Rightarrow> string" where
  "lines_text padding [] = []"
| "lines_text padding ((line_num, line) # rest) =
     ''    '' @ rjust padding (str_nat line_num) @ '': '' @ line @ newline @
     lines_text padding rest"

fun files_text :: "nat \<Rightarrow> (string \<times> (nat \<times> string) list) list \<Rightarrow> string" where
  "files_text padding [] = []"
| "files_text padding ((filename, unicode_lines) # rest) =
     ''  '' @ filename @ newline @ lines_text padding unicode_lines @ newline @
     files_text padding rest"

definition CheckNonAscii :: "'r input_api \<Rightarrow> 'r output_api \<Rightarrow> io_error + 'r list" where
  "CheckNonAscii input_api output_api =
     (let file_filter = MakeFileFilter input_api (Some FILE_EXTENSIONS) None
      in case scan_files input_api (AffectedSourceFiles input_api file_filter) [] 0 of
        Inl e \<Rightarrow> Inl e
      | Inr (files_with_unicode_lines, max_lines_in_any_file) \<Rightarrow>
          if files_with_unicode_lines \<noteq> []
          then (let padding = length (str_nat max_lines_in_any_file);
                    long_text = ''The following files contain non-ASCII characters:'' @ newline @
                      files_text padding files_with_unicode_lines
                in Inr [PresubmitPromptWarning output_api
                     ''Some files contain non-ASCII characters.'' long_text])
          else Inr [])"

subsection \<open>\<open>_CheckBannedGoAPIs\<close> (lines 76 to 116)\<close>

text \<open>\<open>\b\<close> and \<open>\.\<close> in a raw pattern.\<close>

definition wb :: string where "wb = [backslash, CHR ''b'']"
definition dot :: string where "dot = [backslash, CHR ''.'']"

definition banned_replacements :: "(string \<times> string) list" where
  "banned_replacements = [
     (wb @ ''reflect'' @ dot @ ''DeepEqual'' @ wb, ''DeepEqual in go.skia.org/infra/go/testutils''),
     (wb @ ''github'' @ dot @ ''com/golang/glog'' @ wb, ''go.skia.org/infra/go/sklog''),
     (wb @ ''github'' @ dot @ ''com/skia-dev/glog'' @ wb, ''go.skia.org/infra/go/sklog''),
     (wb @ ''http'' @ dot @ ''Get'' @ wb, ''NewTimeoutClient in go.skia.org/infra/go/httputils''),
     (wb @ ''http'' @ dot @ ''Head'' @ wb, ''NewTimeoutClient in go.skia.org/infra/go/httputils''),
     (wb @ ''http'' @ dot @ ''Post'' @ wb, ''NewTimeoutClient in go.skia.org/infra/go/httputils''),
     (wb @ ''http'' @ dot @ ''PostForm'' @ wb,
        ''NewTimeoutClient in go.skia.org/infra/go/httputils''),
     (wb @ ''os'' @ dot @ ''Interrupt'' @ wb, ''AtExit in go.skia.org/go/cleanup''),
     (wb @ ''signal'' @ dot @ ''Notify'' @ wb, ''AtExit in go.skia.org/go/cleanup''),
     (wb @ ''syscall.SIGINT'' @ wb, ''AtExit in go.skia.org/go/cleanup''),
     (wb @ ''syscall.SIGTERM'' @ wb, ''AtExit in go.skia.org/go/cleanup'')]"

text \<open>Lines 107 to 111, for one changed line; lines 106 to 111, for one file.\<close>

definition line_errors :: "'r input_api \<Rightarrow> string \<Rightarrow> nat \<times> string \<Rightarrow> string list" where
  "line_errors input_api affected_filepath changed =
     concat (map (\<lambda>(re, replacement).
        case re_search input_api re (snd changed) of
          None \<Rightarrow> []
        | Some matched \<Rightarrow>
            [affected_filepath @ '':'' @ str_nat (fst changed) @ '': Instead of '' @ matched @
             '', please use '' @ replacement @ ''.''])
       banned_replacements)"

definition file_errors :: "'r input_api \<Rightarrow> affected_file \<Rightarrow> string list" where
  "file_errors input_api affected_file =
     concat (map (line_errors input_api (LocalPath affected_file))
       (ChangedContents affected_file))"

text \<open>\<open>'\n'.join(errors)\<close>.\<close>

fun join_lines :: "string list \<Rightarrow> string" where
  "join_lines [] = []"
| "join_lines [x] = x"
| "join_lines (x # y # ys) = x @ newline @ join_lines (y # ys)"

definition CheckBannedGoAPIs :: "'r input_api \<Rightarrow> 'r output_api \<Rightarrow> 'r list" where
  "CheckBannedGoAPIs input_api output_api =
     (let file_filter = MakeFileFilter input_api (Some [''go'']) None;
          errors = concat (map (file_errors input_api) (AffectedSourceFiles input_api file_filter))
      in if errors \<noteq> [] then [PresubmitPromptWarning output_api (join_lines errors) []]
         else [])"

subsection \<open>\<open>CheckChange\<close> and the two entry points (lines 119 to 190)\<close>

definition pylint_blacklist :: "'r input_api \<Rightarrow> string list" where
  "pylint_blacklist input_api =
     [''infra['' @ [backslash, backslash, backslash] @ ''/]bots['' @
        [backslash, backslash, backslash] @ ''/]recipes.py'',
      ''.*['' @ [backslash, backslash, backslash] @ ''/]'' @ dot @ ''recipe_deps['' @
        [backslash, backslash, backslash] @ ''/].*'',
      ''.*['' @ [backslash, backslash, backslash] @ ''/]node_modules['' @
        [backslash, backslash, backslash] @ ''/].*''] @
     DEFAULT_BLACK_LIST input_api"

definition pylint_disabled_warnings :: "string list" where
  "pylint_disabled_warnings =
     [''F0401'', ''E0611'', ''W0232'', ''E1002'', ''W0403'', ''R0201'', ''E1003'', ''W0613'']"

text \<open>
  The results of the checks, appended in the order of the calls. The filter of line 172
  is built and not passed on: \<open>CheckChangeHasNoTabs\<close> is called without it.
\<close>

definition CheckChange :: "'r input_api \<Rightarrow> 'r output_api \<Rightarrow> 'r list" where
  "CheckChange input_api output_api =
     RunPylint input_api output_api pylint_disabled_warnings (pylint_blacklist input_api) @
     CheckLongLines input_api output_api 100
       (MakeFileFilter input_api None (Some [''go'', ''html'', ''py''])) @
     CheckChangeTodoHasOwner input_api output_api (MakeFileFilter input_api None None) @
     CheckChangeHasNoStrayWhitespace input_api output_api (MakeFileFilter input_api None None) @
     CheckChangeHasNoTabs input_api output_api @
     CheckBannedGoAPIs input_api output_api"

text \<open>\<open>results.extend(...)\<close> appends; an error of the non-ASCII check propagates.\<close>

definition CheckChangeOnUpload :: "'r input_api \<Rightarrow> 'r output_api \<Rightarrow> io_error + 'r list" where
  "CheckChangeOnUpload input_api output_api =
     (let results = CheckChange input_api output_api
      in case CheckNonAscii input_api output_api of
        Inl e \<Rightarrow> Inl e
      | Inr warnings \<Rightarrow> Inr (results @ warnings))"

definition CheckChangeOnCommit :: "'r input_api \<Rightarrow> 'r output_api \<Rightarrow> 'r list" where
  "CheckChangeOnCommit input_api output_api =
     (let results = CheckChange input_api output_api in results)"

text \<open>An affected file that can be opened and has a line that does not decode as ASCII.\<close>

definition has_non_ascii :: "'r input_api \<Rightarrow> affected_file \<Rightarrow> bool" where
  "has_non_ascii input_api f =
     (case open_lines input_api (LocalPath f) of
        None \<Rightarrow> False
      | Some ls \<Rightarrow> \<not> list_all decodes_ascii ls)"

subsection \<open>Test inputs\<close>

text \<open>
  A change of two files: \<open>a.py\<close>, whose second line has the two bytes of a non-ASCII
  character, and \<open>b.go\<close>. Every file passes the filters, the canned checks and the
  regular expressions find nothing, and a result is the pair of its message and text.
\<close>

definition pair_output :: "(string \<times> string) output_api" where
  "pair_output = \<lparr>PresubmitPromptWarning = Pair\<rparr>"

definition two_files :: "(string \<times> string) input_api" where
  "two_files = \<lparr>
     FilterSourceFile = (\<lambda>x white_list black_list. True),
     AffectedSourceFiles = (\<lambda>file_filter. filter file_filter
       [\<lparr>LocalPath = ''a.py'', ChangedContents = [(2, ''# caf'' @ [CHR 0xC3, CHR 0xA9])]\<rparr>,
        \<lparr>LocalPath = ''b.go'', ChangedContents = [(1, ''package b'')]\<rparr>]),
     re_search = (\<lambda>re line. None),
     DEFAULT_BLACK_LIST = [],
     RunPylint = (\<lambda>output_api disabled_warnings black_list. []),
     CheckLongLines = (\<lambda>output_api maxlen source_file_filter. []),
     CheckChangeTodoHasOwner = (\<lambda>output_api source_file_filter. []),
     CheckChangeHasNoStrayWhitespace = (\<lambda>output_api source_file_filter. []),
     CheckChangeHasNoTabs = (\<lambda>output_api. []),
     open_lines = (\<lambda>path.
       if path = ''a.py'' then Some [''x = 1'' @ newline, ''# caf'' @ [CHR 0xC3, CHR 0xA9] @ newline]
       else if path = ''b.go'' then Some [''package b'' @ newline]
       else None)\<rparr>"

section \<open>Notions for the properties of the recipe\<close>

subsection \<open>Notions used in the statements\<close>

text \<open>
  The log entries of \<open>k\<close> consecutive attempts of the call \<open>c\<close>, the first of them being
  call number \<open>l\<close> of the run.
\<close>

definition attempts_log :: "api \<Rightarrow> step_call \<Rightarrow> nat \<Rightarrow> nat \<Rightarrow> (step_call \<times> result) list" where
  "attempts_log a c l k = map (\<lambda>i. (c, step_outcome a (l + i) c)) [0..<k]"

text \<open>The steps run so far: their names, and their names with their outcomes.\<close>

definition step_names :: "state \<Rightarrow> string list" where
  "step_names s = map (\<lambda>x. step_name (fst x)) (step_log s)"

definition outcomes :: "state \<Rightarrow> (string \<times> result) list" where
  "outcomes s = map (\<lambda>x. (step_name (fst x), snd x)) (step_log s)"

text \<open>
  The names of the steps in the order \<open>RunSteps\<close> declares them, for a builder name:
  the git steps, the dependency steps, the start of the emulators when the name has
  \<open>Large\<close> or \<open>Race\<close>, the build or test step, the stop of the emulators after the test
  step, and \<open>git diff go.mod\<close>.
\<close>

definition declared_steps :: "string \<Rightarrow> string list" where
  "declared_steps builder =
     [''git init'', ''git add'', ''git commit'', ''which go'', ''go mod download''] @
     map (\<lambda>target. ''go install '' @ target) install_targets @
     (if str_in ''Large'' builder \<or> str_in ''Race'' builder
      then [''start the cloud emulators''] else []) @
     (if str_in ''Build'' builder then [''make all'']
      else [''run_unittests''] @
        (if str_in ''Large'' builder \<or> str_in ''Race'' builder
         then [''stop the cloud emulators''] else [])) @
     [''git diff go.mod'']"

text \<open>The part of it that follows the dependency steps.\<close>

definition tail_steps :: "string \<Rightarrow> string list" where
  "tail_steps builder =
     (if str_in ''Large'' builder \<or> str_in ''Race'' builder
      then [''start the cloud emulators''] else []) @
     (if str_in ''Build'' builder then [''make all'']
      else [''run_unittests''] @
        (if str_in ''Large'' builder \<or> str_in ''Race'' builder
         then [''stop the cloud emulators''] else [])) @
     [''git diff go.mod'']"

text \<open>
  The call of the first step that lines 117 to 136 run, and the build and test steps
  among log entries.
\<close>

definition main_step :: "api \<Rightarrow> string \<Rightarrow> state \<Rightarrow> step_call" where
  "main_step a builder s = fst (step_log (snd (run_tests a builder s)) ! length (step_log s))"

definition main_steps :: "(step_call \<times> result) list \<Rightarrow> (step_call \<times> result) list" where
  "main_steps l = filter (\<lambda>x. step_name (fst x) = ''make all'' \<or> step_name (fst x) = ''run_unittests'') l"

subsection \<open>Notions used in the proofs\<close>

text \<open>
  \<open>logs N p\<close>: the statement \<open>p\<close> only appends to the log, and only steps named in \<open>N\<close>.
  \<open>keeps p\<close>: it leaves \<open>env\<close> and \<open>base_paths\<close> as they are.
\<close>

definition logs :: "string set \<Rightarrow> prog \<Rightarrow> bool" where
  "logs N p = (\<forall>s. \<exists>ext. step_log (snd (p s)) = step_log s @ ext \<and>
      (\<forall>x\<in>set ext. step_name (fst x) \<in> N))"

definition keeps :: "prog \<Rightarrow> bool" where
  "keeps p = (\<forall>s. env (snd (p s)) = env s \<and> base_paths (snd (p s)) = base_paths s)"

text \<open>
  \<open>all_good G s\<close>: every entry of the log satisfies \<open>G\<close>. \<open>good_run G p s Q\<close>: when the
  run of \<open>p\<close> from \<open>s\<close> leaves such a log, its outcome satisfies \<open>Q\<close>.
\<close>

definition all_good :: "(step_call \<times> result \<Rightarrow> bool) \<Rightarrow> state \<Rightarrow> bool" where
  "all_good G s = (\<forall>x\<in>set (step_log s). G x)"

definition good_run ::
  "(step_call \<times> result \<Rightarrow> bool) \<Rightarrow> prog \<Rightarrow> state \<Rightarrow> (result \<times> state \<Rightarrow> bool) \<Rightarrow> bool" where
  "good_run G p s Q = (all_good G (snd (p s)) \<longrightarrow> Q (p s))"

text \<open>
  The names of the steps before the start of the emulators; the five assignments of lines
  106 to 110; the value of \<open>env\<close> after line 115, for the dict of line 64 taken under
  the paths \<open>bp\<close>; lines 40 to 98 as one statement; \<open>base_paths\<close> after lines 40 to 47.
\<close>

definition early_names :: "string set" where
  "early_names = {''git init'', ''git add'', ''git commit'', ''which go'', ''go mod download''} \<union>
     range (\<lambda>target. ''go install '' @ target)"

definition emulator_env :: "(string \<times> val) list \<Rightarrow> (string \<times> val) list" where
  "emulator_env e =
     AList.update ''COCKROACHDB_EMULATOR_HOST'' (Str ''localhost:8895'')
       (AList.update ''FIRESTORE_EMULATOR_HOST'' (Str ''localhost:8894'')
         (AList.update ''PUBSUB_EMULATOR_HOST'' (Str ''localhost:8893'')
           (AList.update ''BIGTABLE_EMULATOR_HOST'' (Str ''localhost:8892'')
             (AList.update ''DATASTORE_EMULATOR_HOST'' (Str ''localhost:8891'') e))))"

definition tests_env :: "api \<Rightarrow> string \<Rightarrow> (string \<times> string list) list \<Rightarrow> (string \<times> val) list" where
  "tests_env a b bp =
     AList.update ''PATH''
       (Str (str_join (pathsep a) [
          str_join (pathsep a) [
            path_str a bp go_bin,
            path_str a bp (join gopath [''bin'']),
            path_str a bp (join start_dir [''gcloud_linux'', ''bin'']),
            path_str a bp (join start_dir [''protoc'', ''bin'']),
            path_str a bp (join start_dir [''node'', ''node'', ''bin'']),
            path_str a bp (join start_dir [''cockroachdb'']),
            ''%(PATH)s''],
          path_str a bp depot_tools]))
       (AList.update ''SKIABOT_TEST_DEPOT_TOOLS'' (PathV depot_tools)
         (if str_in ''Large'' b \<or> str_in ''Race'' b
          then emulator_env (base_env a bp) else base_env a bp))"

definition before_tests :: "api \<Rightarrow> prog" where
  "before_tests a = seq hack_start_dir (seq set_depot_tools
     (seq (init_git a) (seq (bind_env a) (fetch_deps a))))"

definition configured_paths :: "(string \<times> string list) list \<Rightarrow> (string \<times> string list) list" where
  "configured_paths bp =
     (case map_of bp ''start_dir'' of
        None \<Rightarrow> bp
      | Some sd \<Rightarrow>
          AList.update ''depot_tools''
            ((if last sd = ''k'' then butlast sd else sd) @ [''recipe_bundle'', ''depot_tools''])
            (if last sd = ''k'' then AList.update ''start_dir'' (butlast sd) bp else bp))"

section \<open>Properties of the recipe\<close>

subsection \<open>Steps and \<open>retry\<close>\<close>

lemma test_api_outcome: "step_outcome (test_api b f) = f"
  by (simp add: test_api_def)

lemma test_api_properties: "properties (test_api b f) = [(''buildername'', b)]"
  by (simp add: test_api_def)

lemma kitchen_log: "step_log kitchen = []"
  by (simp add: kitchen_def)

lemma step_eq:
  "step a c s = (step_outcome a (length (step_log s)) c,
     s\<lparr>step_log := step_log s @ [(c, step_outcome a (length (step_log s)) c)]\<rparr>)"
  by (simp add: step_def Let_def)

lemma attempts_log_0: "attempts_log a c l 0 = []"
  by (simp add: attempts_log_def)

lemma attempts_log_Suc:
  "attempts_log a c l (Suc k) = (c, step_outcome a l c) # attempts_log a c (Suc l) k"
  by (simp add: attempts_log_def upt_rec[of 0] map_Suc_upt[symmetric] del: upt_Suc)

lemma retry_loop_failed_attempt:
  assumes "step_outcome a (length (step_log s)) c = Raised (StepFailure m)"
  shows "retry_loop a (Suc n) c exc s =
    retry_loop a n c (Some (StepFailure m))
      (s\<lparr>step_log := step_log s @ [(c, Raised (StepFailure m))]\<rparr>)"
  using assms by (simp add: step_eq)

text \<open>Failures on the attempts before attempt \<open>j\<close> (from 0) and a success there.\<close>

lemma retry_loop_success:
  assumes "j < n"
    and "\<forall>i<j. \<exists>m. step_outcome a (length (step_log s) + i) c = Raised (StepFailure m)"
    and "step_outcome a (length (step_log s) + j) c = Returned"
  shows "retry_loop a n c exc s =
    (Returned, s\<lparr>step_log := step_log s @ attempts_log a c (length (step_log s)) (Suc j)\<rparr>)"
  using assms
proof (induction n arbitrary: j s exc)
  case 0
  then show ?case by simp
next
  case (Suc n)
  show ?case
  proof (cases j)
    case 0
    with Suc.prems show ?thesis
      by (simp add: step_eq attempts_log_Suc attempts_log_0)
  next
    case (Suc j')
    from Suc.prems(2) Suc obtain m
      where m: "step_outcome a (length (step_log s)) c = Raised (StepFailure m)"
      by force
    let ?s' = "s\<lparr>step_log := step_log s @ [(c, Raised (StepFailure m))]\<rparr>"
    have "retry_loop a n c (Some (StepFailure m)) ?s' =
       (Returned,
        ?s'\<lparr>step_log := step_log ?s' @ attempts_log a c (length (step_log ?s')) (Suc j')\<rparr>)"
    proof (rule Suc.IH)
      show "j' < n" using Suc.prems(1) Suc by simp
      show "\<forall>i<j'. \<exists>m. step_outcome a (length (step_log ?s') + i) c = Raised (StepFailure m)"
      proof (intro allI impI)
        fix i assume "i < j'"
        then have "Suc i < j" using Suc by simp
        with Suc.prems(2)
        show "\<exists>m. step_outcome a (length (step_log ?s') + i) c = Raised (StepFailure m)"
          by fastforce
      qed
      show "step_outcome a (length (step_log ?s') + j') c = Returned"
        using Suc.prems(3) Suc by simp
    qed
    then show ?thesis
      unfolding retry_loop_failed_attempt[OF m]
      using m by (simp add: attempts_log_Suc[of a c "length (step_log s)"] Suc)
  qed
qed

text \<open>Failures on all \<open>n\<close> attempts: the \<open>else\<close> branch raises what \<open>exc\<close> holds.\<close>

lemma retry_loop_exhausted:
  assumes "\<forall>i<n. \<exists>m. step_outcome a (length (step_log s) + i) c = Raised (StepFailure m)"
  shows "retry_loop a n c exc s =
    ((case n of 0 \<Rightarrow> (case exc of None \<Rightarrow> Raised TypeError | Some e \<Rightarrow> Raised e)
      | Suc k \<Rightarrow> step_outcome a (length (step_log s) + k) c),
     s\<lparr>step_log := step_log s @ attempts_log a c (length (step_log s)) n\<rparr>)"
  using assms
proof (induction n arbitrary: s exc)
  case 0
  then show ?case by (simp add: attempts_log_0 split: option.splits)
next
  case (Suc n)
  from Suc.prems obtain m
    where m: "step_outcome a (length (step_log s)) c = Raised (StepFailure m)"
    by force
  let ?s' = "s\<lparr>step_log := step_log s @ [(c, Raised (StepFailure m))]\<rparr>"
  have "\<forall>i<n. \<exists>m. step_outcome a (length (step_log ?s') + i) c = Raised (StepFailure m)"
  proof (intro allI impI)
    fix i assume "i < n"
    then have "Suc i < Suc n" by simp
    with Suc.prems
    show "\<exists>m. step_outcome a (length (step_log ?s') + i) c = Raised (StepFailure m)"
      by fastforce
  qed
  from Suc.IH[OF this, of "Some (StepFailure m)"] show ?case
    unfolding retry_loop_failed_attempt[OF m]
    using m by (simp add: attempts_log_Suc[of a c "length (step_log s)"] split: nat.splits)
qed

text \<open>
  C4. Let \<open>maxAttempts \<ge> 1\<close>. If the step raises \<open>StepFailure\<close> on attempts \<open>1\<close> to
  \<open>k - 1\<close> and returns on attempt \<open>k \<le> maxAttempts\<close>, then \<open>retry\<close> returns and has
  called the step exactly \<open>k\<close> times: the log has grown by these \<open>k\<close> attempts and
  nothing else. If the step raises \<open>StepFailure\<close> on all \<open>maxAttempts\<close> attempts,
  then \<open>retry\<close> has called it \<open>maxAttempts\<close> times and raises the failure of the last
  attempt.
\<close>

theorem retry_attempts:
  assumes "1 \<le> maxAttempts"
  shows "(1 \<le> k \<and> k \<le> nat maxAttempts \<and>
          (\<forall>i<k - 1. \<exists>m. step_outcome a (length (step_log s) + i) c = Raised (StepFailure m)) \<and>
          step_outcome a (length (step_log s) + (k - 1)) c = Returned
          \<longrightarrow> fst (retry a maxAttempts c s) = Returned \<and>
              step_log (snd (retry a maxAttempts c s)) =
                step_log s @ attempts_log a c (length (step_log s)) k \<and>
              length (step_log (snd (retry a maxAttempts c s))) = length (step_log s) + k)
       \<and> ((\<forall>i<nat maxAttempts. \<exists>m.
              step_outcome a (length (step_log s) + i) c = Raised (StepFailure m))
          \<longrightarrow> fst (retry a maxAttempts c s) =
                step_outcome a (length (step_log s) + (nat maxAttempts - 1)) c \<and>
              step_log (snd (retry a maxAttempts c s)) =
                step_log s @ attempts_log a c (length (step_log s)) (nat maxAttempts) \<and>
              length (step_log (snd (retry a maxAttempts c s))) =
                length (step_log s) + nat maxAttempts)"
proof (intro conjI impI)
  assume h: "1 \<le> k \<and> k \<le> nat maxAttempts \<and>
          (\<forall>i<k - 1. \<exists>m. step_outcome a (length (step_log s) + i) c = Raised (StepFailure m)) \<and>
          step_outcome a (length (step_log s) + (k - 1)) c = Returned"
  then obtain j where j: "k = Suc j" by (cases k) auto
  have 1: "j < nat maxAttempts" using h j by simp
  have 2: "\<forall>i<j. \<exists>m. step_outcome a (length (step_log s) + i) c = Raised (StepFailure m)"
    using h j by simp
  have 3: "step_outcome a (length (step_log s) + j) c = Returned"
    using h j by simp
  have "retry a maxAttempts c s =
     (Returned, s\<lparr>step_log := step_log s @ attempts_log a c (length (step_log s)) k\<rparr>)"
    unfolding retry_def j by (rule retry_loop_success[OF 1 2 3])
  then show "fst (retry a maxAttempts c s) = Returned"
    and "step_log (snd (retry a maxAttempts c s)) =
           step_log s @ attempts_log a c (length (step_log s)) k"
    and "length (step_log (snd (retry a maxAttempts c s))) = length (step_log s) + k"
    by (simp_all add: attempts_log_def)
next
  assume h: "\<forall>i<nat maxAttempts. \<exists>m.
     step_outcome a (length (step_log s) + i) c = Raised (StepFailure m)"
  from assms obtain n where n: "nat maxAttempts = Suc n"
    by (cases "nat maxAttempts") simp_all
  from retry_loop_exhausted[OF h, of None]
  have "retry a maxAttempts c s =
     (step_outcome a (length (step_log s) + (nat maxAttempts - 1)) c,
      s\<lparr>step_log := step_log s @ attempts_log a c (length (step_log s)) (nat maxAttempts)\<rparr>)"
    by (simp add: retry_def n)
  then show "fst (retry a maxAttempts c s) =
      step_outcome a (length (step_log s) + (nat maxAttempts - 1)) c"
    and "step_log (snd (retry a maxAttempts c s)) =
           step_log s @ attempts_log a c (length (step_log s)) (nat maxAttempts)"
    and "length (step_log (snd (retry a maxAttempts c s))) =
           length (step_log s) + nat maxAttempts"
    by (simp_all add: attempts_log_def)
qed

text \<open>
  Three attempts allowed: a step that fails once and then succeeds is called twice, and
  a step that always fails is called three times.
\<close>

theorem retry_attempts_witness:
  "fst (retry (test_api ''Infra-PerCommit-Small'' flaky_once) 3 some_call kitchen) = Returned
   \<and> length (step_log (snd (retry (test_api ''Infra-PerCommit-Small'' flaky_once)
        3 some_call kitchen))) = 2
   \<and> fst (retry (test_api ''Infra-PerCommit-Small'' always_down) 3 some_call kitchen) =
        Raised (StepFailure ''down'')
   \<and> length (step_log (snd (retry (test_api ''Infra-PerCommit-Small'' always_down)
        3 some_call kitchen))) = 3"
proof -
  let ?flaky = "test_api ''Infra-PerCommit-Small'' flaky_once"
  let ?down = "test_api ''Infra-PerCommit-Small'' always_down"
  have "fst (retry ?flaky 3 some_call kitchen) = Returned \<and>
        length (step_log (snd (retry ?flaky 3 some_call kitchen))) = 2"
    using retry_attempts[of 3 2 ?flaky kitchen some_call]
    by (simp add: test_api_outcome kitchen_log attempts_log_def flaky_once_def)
  moreover
  have "fst (retry ?down 3 some_call kitchen) = Raised (StepFailure ''down'') \<and>
        length (step_log (snd (retry ?down 3 some_call kitchen))) = 3"
    using retry_attempts[of 3 0 ?down kitchen some_call]
    by (simp add: test_api_outcome kitchen_log attempts_log_def always_down_def)
  ultimately show ?thesis by simp
qed

text \<open>
  C9. With \<open>attempts = 0\<close> the step is not called at all (the state and its log are
  unchanged) and \<open>retry\<close> does not return: the \<open>else\<close> branch of the loop runs
  \<open>raise exc\<close> with \<open>exc\<close> still \<open>None\<close>, which raises. Nothing in the code guards
  against it, and the same happens for every negative \<open>attempts\<close>.
\<close>

theorem retry_zero_attempts:
  "retry a 0 c s = (Raised TypeError, s) \<and> retry a (- int n) c s = (Raised TypeError, s)"
  by (simp add: retry_def)

subsection \<open>Sequencing\<close>

lemma seq_Returned: "p s = (Returned, s1) \<Longrightarrow> seq p q s = q s1"
  by (simp add: seq_def)

lemma seq_Raised: "p s = (Raised e, s1) \<Longrightarrow> seq p q s = (Raised e, s1)"
  by (simp add: seq_def)

lemma seq_cases:
  obtains (raised) e s1 where "p s = (Raised e, s1)" "seq p q s = (Raised e, s1)"
  | (returned) s1 where "p s = (Returned, s1)" "seq p q s = q s1"
proof (cases "p s")
  case (Pair r s1)
  then show ?thesis
    by (cases r) (auto intro: raised returned simp: seq_def)
qed

lemma seqs_Nil: "seqs [] = (\<lambda>s. (Returned, s))"
  by (rule ext) simp

lemma seq_return_right: "seq p (\<lambda>s. (Returned, s)) = p"
proof (rule ext)
  fix s show "seq p (\<lambda>s. (Returned, s)) s = p s"
    by (cases "p s"; cases "fst (p s)") (simp_all add: seq_def)
qed

lemma seqs_Cons: "seqs (p # ps) = seq p (seqs ps)"
  by (rule ext) simp

lemma for_each_Nil: "for_each [] body = (\<lambda>s. (Returned, s))"
  by (rule ext) simp

lemma for_each_Cons: "for_each (x # xs) body = seq (body x) (for_each xs body)"
  by (rule ext) simp

lemma try_finally_snd: "snd (try_finally p f s) = snd (f (snd (p s)))"
  by (cases "p s"; cases "f (snd (p s))"; cases "fst (f (snd (p s)))")
     (simp_all add: try_finally_def)

lemma seq_snd:
  "snd (seq p q s) = (if fst (p s) = Returned then snd (q (snd (p s))) else snd (p s))"
  by (cases "p s"; cases "fst (p s)") (simp_all add: seq_def)

subsection \<open>What a statement adds to the log\<close>

lemma logsD:
  assumes "logs N p"
  obtains ext where "step_log (snd (p s)) = step_log s @ ext"
    and "\<forall>x\<in>set ext. step_name (fst x) \<in> N"
  using assms unfolding logs_def by blast

lemma logsI:
  assumes "\<And>s. \<exists>ext. step_log (snd (p s)) = step_log s @ ext \<and>
      (\<forall>x\<in>set ext. step_name (fst x) \<in> N)"
  shows "logs N p"
  using assms unfolding logs_def by blast

lemma logs_mono: "logs N p \<Longrightarrow> N \<subseteq> M \<Longrightarrow> logs M p"
  unfolding logs_def by (meson subsetD)

lemma logs_pure: "(\<And>s. step_log (snd (p s)) = step_log s) \<Longrightarrow> logs N p"
  by (rule logsI, rule exI[of _ "[]"]) simp

lemma logs_skip: "logs N skip"
  by (rule logs_pure) (simp add: skip_def)

lemma logs_return: "logs N (\<lambda>s. (Returned, s))"
  by (rule logs_pure) simp

lemma logs_set_env: "logs N (set_env k v)"
  by (rule logs_pure) (simp add: set_env_def)

lemma logs_step: "step_name c \<in> N \<Longrightarrow> logs N (step a c)"
  by (rule logsI, rule exI[of _ "[(c, step_outcome a (length (step_log s)) c)]" for s])
     (simp add: step_eq)

lemma logs_step_fun: "(\<And>s. step_name (f s) \<in> N) \<Longrightarrow> logs N (\<lambda>s. step a (f s) s)"
  by (rule logsI, rule exI[of _ "[(f s, step_outcome a (length (step_log s)) (f s))]" for s])
     (simp add: step_eq)

lemma logs_seq:
  assumes "logs N p" "logs N q"
  shows "logs N (seq p q)"
proof (rule logsI)
  fix s
  from assms(1) obtain e1 where 1: "step_log (snd (p s)) = step_log s @ e1"
    and n1: "\<forall>x\<in>set e1. step_name (fst x) \<in> N" by (rule logsD)
  from assms(2) obtain e2 where 2: "step_log (snd (q (snd (p s)))) = step_log (snd (p s)) @ e2"
    and n2: "\<forall>x\<in>set e2. step_name (fst x) \<in> N" by (rule logsD)
  show "\<exists>ext. step_log (snd (seq p q s)) = step_log s @ ext \<and>
      (\<forall>x\<in>set ext. step_name (fst x) \<in> N)"
  proof (cases "fst (p s) = Returned")
    case True
    with 1 2 have "step_log (snd (seq p q s)) = step_log s @ (e1 @ e2)" by (simp add: seq_snd)
    moreover have "\<forall>x\<in>set (e1 @ e2). step_name (fst x) \<in> N" using n1 n2 by auto
    ultimately show ?thesis by blast
  next
    case False
    with 1 n1 show ?thesis by (auto simp: seq_snd)
  qed
qed

lemma logs_seqs: "(\<And>p. p \<in> set ps \<Longrightarrow> logs N p) \<Longrightarrow> logs N (seqs ps)"
proof (induction ps)
  case Nil
  show ?case unfolding seqs_Nil by (rule logs_return)
next
  case (Cons p ps)
  show ?case unfolding seqs_Cons
    by (rule logs_seq) (use Cons in auto)
qed

lemma logs_for_each: "(\<And>x. x \<in> set xs \<Longrightarrow> logs N (body x)) \<Longrightarrow> logs N (for_each xs body)"
proof (induction xs)
  case Nil
  show ?case unfolding for_each_Nil by (rule logs_return)
next
  case (Cons x xs)
  show ?case unfolding for_each_Cons
    by (rule logs_seq) (use Cons in auto)
qed

lemma logs_try_finally:
  assumes "logs N p" "logs N f"
  shows "logs N (try_finally p f)"
proof (rule logsI)
  fix s
  from assms(1) obtain e1 where 1: "step_log (snd (p s)) = step_log s @ e1"
    and n1: "\<forall>x\<in>set e1. step_name (fst x) \<in> N" by (rule logsD)
  from assms(2) obtain e2 where 2: "step_log (snd (f (snd (p s)))) = step_log (snd (p s)) @ e2"
    and n2: "\<forall>x\<in>set e2. step_name (fst x) \<in> N" by (rule logsD)
  from 1 2 have "step_log (snd (try_finally p f s)) = step_log s @ (e1 @ e2)"
    by (simp add: try_finally_snd)
  moreover have "\<forall>x\<in>set (e1 @ e2). step_name (fst x) \<in> N" using n1 n2 by auto
  ultimately show "\<exists>ext. step_log (snd (try_finally p f s)) = step_log s @ ext \<and>
      (\<forall>x\<in>set ext. step_name (fst x) \<in> N)" by blast
qed

lemma logs_retry_loop: "step_name c \<in> N \<Longrightarrow> logs N (retry_loop a n c exc)"
proof (induction n arbitrary: exc)
  case 0
  show ?case by (rule logs_pure) (simp split: option.splits)
next
  case (Suc n)
  show ?case
  proof (rule logsI)
    fix s :: state
    let ?o = "step_outcome a (length (step_log s)) c"
    let ?s' = "s\<lparr>step_log := step_log s @ [(c, ?o)]\<rparr>"
    show "\<exists>ext. step_log (snd (retry_loop a (Suc n) c exc s)) = step_log s @ ext \<and>
      (\<forall>x\<in>set ext. step_name (fst x) \<in> N)"
    proof (cases "\<exists>e. ?o = Raised e \<and> is_StepFailure e")
      case True
      then obtain e where e: "?o = Raised e" "is_StepFailure e" by blast
      from Suc.IH[OF Suc.prems, of "Some e"] obtain ext where
        "step_log (snd (retry_loop a n c (Some e) ?s')) = step_log ?s' @ ext"
        and n: "\<forall>x\<in>set ext. step_name (fst x) \<in> N" by (rule logsD)
      then have "step_log (snd (retry_loop a (Suc n) c exc s)) = step_log s @ ((c, ?o) # ext)"
        using e by (simp add: step_eq)
      moreover have "\<forall>x\<in>set ((c, ?o) # ext). step_name (fst x) \<in> N" using n Suc.prems by simp
      ultimately show ?thesis by blast
    next
      case False
      then have "step_log (snd (retry_loop a (Suc n) c exc s)) = step_log s @ [(c, ?o)]"
        by (cases ?o) (auto simp: step_eq)
      moreover have "\<forall>x\<in>set [(c, ?o)]. step_name (fst x) \<in> N" using Suc.prems by simp
      ultimately show ?thesis by blast
    qed
  qed
qed

lemma logs_retry_fun:
  assumes "\<And>s. step_name (f s) \<in> N"
  shows "logs N (\<lambda>s. retry a n (f s) s)"
proof (rule logsI)
  fix s
  from logs_retry_loop[where c="f s" and N=N and a=a and n="nat n" and exc=None, OF assms]
  show "\<exists>ext. step_log (snd (retry a n (f s) s)) = step_log s @ ext \<and>
      (\<forall>x\<in>set ext. step_name (fst x) \<in> N)"
    unfolding retry_def logs_def by blast
qed

subsection \<open>Statements that leave the dicts alone\<close>

lemma keepsI:
  "(\<And>s. env (snd (p s)) = env s) \<Longrightarrow> (\<And>s. base_paths (snd (p s)) = base_paths s) \<Longrightarrow> keeps p"
  by (simp add: keeps_def)

lemma keeps_env: "keeps p \<Longrightarrow> env (snd (p s)) = env s"
  by (simp add: keeps_def)

lemma keeps_base_paths: "keeps p \<Longrightarrow> base_paths (snd (p s)) = base_paths s"
  by (simp add: keeps_def)

lemma keeps_return: "keeps (\<lambda>s. (Returned, s))"
  by (simp add: keeps_def)

lemma keeps_skip: "keeps skip"
  by (simp add: keeps_def skip_def)

lemma keeps_step: "keeps (step a c)"
  by (simp add: keeps_def step_eq)

lemma keeps_step_fun: "keeps (\<lambda>s. step a (f s) s)"
  by (simp add: keeps_def step_eq)

lemma keeps_seq: "keeps p \<Longrightarrow> keeps q \<Longrightarrow> keeps (seq p q)"
  by (simp add: keeps_def seq_snd)

lemma keeps_try_finally: "keeps p \<Longrightarrow> keeps f \<Longrightarrow> keeps (try_finally p f)"
  by (simp add: keeps_def try_finally_snd)

lemma keeps_seqs: "(\<And>p. p \<in> set ps \<Longrightarrow> keeps p) \<Longrightarrow> keeps (seqs ps)"
proof (induction ps)
  case Nil
  show ?case unfolding seqs_Nil by (rule keeps_return)
next
  case (Cons p ps)
  show ?case unfolding seqs_Cons
    by (rule keeps_seq) (use Cons in auto)
qed

lemma keeps_for_each: "(\<And>x. x \<in> set xs \<Longrightarrow> keeps (body x)) \<Longrightarrow> keeps (for_each xs body)"
proof (induction xs)
  case Nil
  show ?case unfolding for_each_Nil by (rule keeps_return)
next
  case (Cons x xs)
  show ?case unfolding for_each_Cons
    by (rule keeps_seq) (use Cons in auto)
qed

lemma keeps_retry_loop: "keeps (retry_loop a n c exc)"
proof (induction n arbitrary: exc)
  case 0
  show ?case by (simp add: keeps_def split: option.splits)
next
  case (Suc n)
  show ?case
  proof (rule keepsI)
    fix s :: state
    show "env (snd (retry_loop a (Suc n) c exc s)) = env s"
      using Suc[unfolded keeps_def]
      by (cases "step_outcome a (length (step_log s)) c") (simp_all add: step_eq)
    show "base_paths (snd (retry_loop a (Suc n) c exc s)) = base_paths s"
      using Suc[unfolded keeps_def]
      by (cases "step_outcome a (length (step_log s)) c") (simp_all add: step_eq)
  qed
qed

lemma keeps_retry_fun: "keeps (\<lambda>s. retry a n (f s) s)"
  using keeps_retry_loop by (simp add: keeps_def retry_def)

subsection \<open>Runs whose log is given\<close>

lemma seq_assoc: "seq (seq p q) r = seq p (seq q r)"
proof (rule ext)
  fix s show "seq (seq p q) r s = seq p (seq q r) s"
    by (cases "p s"; cases "fst (p s)") (simp_all add: seq_def)
qed

lemma all_good_seq:
  assumes "all_good G (snd (seq p q s))" "logs N q"
  shows "all_good G (snd (p s))"
proof (cases "fst (p s) = Returned")
  case True
  from assms(2) obtain ext where "step_log (snd (q (snd (p s)))) = step_log (snd (p s)) @ ext"
    by (rule logsD)
  with assms(1) True show ?thesis by (simp add: seq_snd all_good_def)
next
  case False
  with assms(1) show ?thesis by (simp add: seq_snd)
qed

lemma good_run_end: "Q (Returned, s) \<Longrightarrow> good_run G (\<lambda>s. (Returned, s)) s Q"
  by (simp add: good_run_def)

lemma good_run_pure:
  assumes "p s = (Returned, s1)" "good_run G q s1 Q"
  shows "good_run G (seq p q) s Q"
  using assms by (simp add: good_run_def seq_Returned)

lemma good_run_step:
  assumes G: "\<And>r. G (f s, r) \<Longrightarrow> r = Returned"
    and q: "logs N q"
    and rest: "good_run G q (s\<lparr>step_log := step_log s @ [(f s, Returned)]\<rparr>) Q"
  shows "good_run G (seq (\<lambda>s. step a (f s) s) q) s Q"
  unfolding good_run_def
proof
  let ?p = "\<lambda>s. step a (f s) s"
  assume H: "all_good G (snd (seq ?p q s))"
  from all_good_seq[OF H q] have "G (f s, step_outcome a (length (step_log s)) (f s))"
    by (simp add: step_eq all_good_def)
  from G[OF this] have "?p s = (Returned, s\<lparr>step_log := step_log s @ [(f s, Returned)]\<rparr>)"
    by (simp add: step_eq)
  then have eq: "seq ?p q s = q (s\<lparr>step_log := step_log s @ [(f s, Returned)]\<rparr>)"
    by (rule seq_Returned)
  with H rest show "Q (seq ?p q s)" by (simp add: good_run_def)
qed

lemma good_run_step_const:
  assumes G: "\<And>r. G (c, r) \<Longrightarrow> r = Returned"
    and q: "logs N q"
    and rest: "good_run G q (s\<lparr>step_log := step_log s @ [(c, Returned)]\<rparr>) Q"
  shows "good_run G (seq (step a c) q) s Q"
  using good_run_step[where f="\<lambda>s. c", OF assms] by simp

lemma good_run_retry:
  assumes G: "\<And>r. G (f s, r) \<Longrightarrow> r = Returned"
    and n: "0 < n"
    and q: "logs N q"
    and rest: "good_run G q (s\<lparr>step_log := step_log s @ [(f s, Returned)]\<rparr>) Q"
  shows "good_run G (seq (\<lambda>s. retry a n (f s) s) q) s Q"
  unfolding good_run_def
proof
  let ?p = "\<lambda>s. retry a n (f s) s"
  let ?o = "step_outcome a (length (step_log s)) (f s)"
  assume H: "all_good G (snd (seq ?p q s))"
  from n obtain k where k: "nat n = Suc k" by (cases "nat n") simp_all
  have good: "all_good G (snd (retry_loop a (Suc k) (f s) None s))"
    using all_good_seq[OF H q] by (simp add: retry_def k)
  have "?o = Returned"
  proof (cases ?o)
    case (Raised e)
    show ?thesis
    proof (cases "is_StepFailure e")
      case True
      let ?s' = "s\<lparr>step_log := step_log s @ [(f s, Raised e)]\<rparr>"
      have "logs UNIV (retry_loop a k (f s) (Some e))"
        by (rule logs_retry_loop) simp
      then obtain ext where "step_log (snd (retry_loop a k (f s) (Some e) ?s')) = step_log ?s' @ ext"
        by (rule logsD)
      with good Raised True have "G (f s, Raised e)"
        by (simp add: step_eq all_good_def)
      from G[OF this] show ?thesis by simp
    next
      case False
      with good Raised have "G (f s, Raised e)"
        by (simp add: step_eq all_good_def)
      from G[OF this] show ?thesis by simp
    qed
  qed
  then have "?p s = (Returned, s\<lparr>step_log := step_log s @ [(f s, Returned)]\<rparr>)"
    by (simp add: retry_def k step_eq)
  then have eq: "seq ?p q s = q (s\<lparr>step_log := step_log s @ [(f s, Returned)]\<rparr>)"
    by (rule seq_Returned)
  with H rest show "Q (seq ?p q s)" by (simp add: good_run_def)
qed

lemma step_name_call: "step_name (call cwd e n cmd) = n"
  by (simp add: call_def)

lemma seq_return_left: "seq (\<lambda>s. (Returned, s)) q = q"
  by (rule ext) (simp add: seq_def)

lemma seq_skip_left: "seq skip q = q"
  by (rule ext) (simp add: seq_def skip_def)

lemma logs_univ_step: "logs UNIV (step a c)"
  by (rule logs_step) simp

lemma logs_univ_step_fun: "logs UNIV (\<lambda>s. step a (f s) s)"
  by (rule logs_step_fun) simp

lemma logs_univ_retry_fun: "logs UNIV (\<lambda>s. retry a n (f s) s)"
  by (rule logs_retry_fun) simp

lemma logs_test_env: "logs N (test_env a)"
  by (rule logs_pure)
     (simp add: test_env_def seq_def set_env_def split: option.splits val.splits)

lemma logs_bind_env: "logs N (bind_env a)"
  by (rule logs_pure) (simp add: bind_env_def)

lemmas logs_univ = logs_seq logs_univ_step logs_univ_step_fun logs_univ_retry_fun
  logs_try_finally logs_skip logs_return logs_set_env logs_test_env logs_bind_env

lemma try_finally_Returned: "p s = (Returned, s1) \<Longrightarrow> try_finally p f s = f s1"
  by (cases "f s1"; cases "fst (f s1)") (simp_all add: try_finally_def)

lemma good_run_try_step:
  assumes G: "\<And>r. G (f s, r) \<Longrightarrow> r = Returned"
    and fin: "logs N fin" and q: "logs N q"
    and rest: "good_run G (seq fin q) (s\<lparr>step_log := step_log s @ [(f s, Returned)]\<rparr>) Q"
  shows "good_run G (seq (try_finally (\<lambda>s. step a (f s) s) fin) q) s Q"
  unfolding good_run_def
proof
  let ?p = "\<lambda>s. step a (f s) s"
  assume H: "all_good G (snd (seq (try_finally ?p fin) q s))"
  from fin obtain ext where "step_log (snd (fin (snd (?p s)))) = step_log (snd (?p s)) @ ext"
    by (rule logsD)
  with all_good_seq[OF H q] have "G (f s, step_outcome a (length (step_log s)) (f s))"
    by (simp add: try_finally_snd step_eq all_good_def)
  from G[OF this] have "?p s = (Returned, s\<lparr>step_log := step_log s @ [(f s, Returned)]\<rparr>)"
    by (simp add: step_eq)
  then have "try_finally ?p fin s = fin (s\<lparr>step_log := step_log s @ [(f s, Returned)]\<rparr>)"
    by (rule try_finally_Returned)
  then have "seq (try_finally ?p fin) q s =
      seq fin q (s\<lparr>step_log := step_log s @ [(f s, Returned)]\<rparr>)"
    by (simp add: seq_def)
  with H rest show "Q (seq (try_finally ?p fin) q s)" by (simp add: good_run_def)
qed

lemma hack_start_dir_ok:
  assumes "map_of (base_paths s) ''start_dir'' = Some sd" "sd \<noteq> []"
  shows "seq hack_start_dir (seq set_depot_tools q) s =
    q (s\<lparr>base_paths := AList.update ''depot_tools''
          ((if last sd = ''k'' then butlast sd else sd) @ [''recipe_bundle'', ''depot_tools''])
          (if last sd = ''k'' then AList.update ''start_dir'' (butlast sd) (base_paths s)
           else base_paths s)\<rparr>)"
  using assms
  by (simp add: seq_def hack_start_dir_def set_depot_tools_def update_conv')

lemma map_of_base_env_PATH:
  "map_of (base_env a bp) ''PATH'' = Some (Str (str_join (pathsep a) [
        path_str a bp go_bin,
        path_str a bp (join gopath [''bin'']),
        path_str a bp (join start_dir [''gcloud_linux'', ''bin'']),
        path_str a bp (join start_dir [''protoc'', ''bin'']),
        path_str a bp (join start_dir [''node'', ''node'', ''bin'']),
        path_str a bp (join start_dir [''cockroachdb'']),
        ''%(PATH)s'']))"
  by (simp add: base_env_def)

lemma test_env_eq:
  assumes "map_of (env s) ''PATH'' = Some (Str p)"
  shows "test_env a s = (Returned, s\<lparr>env :=
     AList.update ''PATH'' (Str (str_join (pathsep a) [p, path_str a (base_paths s) depot_tools]))
       (AList.update ''SKIABOT_TEST_DEPOT_TOOLS'' (PathV depot_tools) (env s))\<rparr>)"
  using assms by (simp add: test_env_def seq_def set_env_def update_conv')

lemma init_git_good:
  assumes G: "\<And>c r. G (c, r) \<Longrightarrow>
        step_name c \<in> {''git init'', ''git add'', ''git commit''} \<Longrightarrow> r = Returned"
    and q: "logs N q"
    and rest: "\<And>ext. map (\<lambda>x. (step_name (fst x), snd x)) ext =
          [(''git init'', Returned), (''git add'', Returned), (''git commit'', Returned)] \<Longrightarrow>
        good_run G q (s\<lparr>step_log := step_log s @ ext\<rparr>) Q"
  shows "good_run G (seq (init_git a) q) s Q"
proof -
  from q have qU: "logs UNIV q" by (rule logs_mono) simp
  show ?thesis
    unfolding init_git_def seqs_Cons seqs_Nil seq_assoc seq_return_left
    apply (rule good_run_step_const[where N=UNIV])
      apply (erule G, simp add: step_name_call)
     apply (intro logs_univ qU)
    apply (rule good_run_step_const[where N=UNIV])
      apply (erule G, simp add: step_name_call)
     apply (intro logs_univ qU)
    apply (rule good_run_step_const[where N=UNIV])
      apply (erule G, simp add: step_name_call)
     apply (intro logs_univ qU)
    apply simp
    apply (rule rest)
    apply (simp add: step_name_call)
    done
qed

lemma fetch_deps_flat:
  "fetch_deps a = 
    seq (\<lambda>s. step a (call infra_dir (Some (env s)) ''which go'' [Str ''which'', Str ''go'']) s)
   (seq (\<lambda>s. retry a 3
        (call infra_dir (Some (env s)) ''go mod download'' [Str ''go'', Str ''mod'', Str ''download'']) s)
     (for_each install_targets (\<lambda>target s.
        step a (call infra_dir (Some (env s)) (''go install '' @ target)
          [Str ''go'', Str ''install'', Str ''-v'', Str target]) s)))"
  by (simp add: fetch_deps_def seqs_Cons seqs_Nil seq_return_right)

lemma logs_univ_for_each_step: "logs UNIV (for_each xs (\<lambda>x s. step a (f x s) s))"
  by (rule logs_for_each) (rule logs_univ_step_fun)

text \<open>The install loop, every step of it returning.\<close>

lemma for_each_good:
  assumes G: "\<And>x r s. G (f x s, r) \<Longrightarrow> r = Returned"
    and f: "\<And>x s l. f x (s\<lparr>step_log := l\<rparr>) = f x s"
    and q: "logs UNIV q"
    and rest: "good_run G q (s\<lparr>step_log := step_log s @ map (\<lambda>x. (f x s, Returned)) xs\<rparr>) Q"
  shows "good_run G (seq (for_each xs (\<lambda>x s. step a (f x s) s)) q) s Q"
  using rest
proof (induction xs arbitrary: s)
  case Nil
  then show ?case by (simp add: for_each_Nil seq_return_left)
next
  case (Cons x xs)
  show ?case
    unfolding for_each_Cons seq_assoc
  proof (rule good_run_step[where N=UNIV])
    show "\<And>r. G (f x s, r) \<Longrightarrow> r = Returned" by (rule G)
    show "logs UNIV (seq (for_each xs (\<lambda>x s. step a (f x s) s)) q)"
      by (intro logs_seq logs_univ_for_each_step q)
    show "good_run G (seq (for_each xs (\<lambda>x s. step a (f x s) s)) q)
       (s\<lparr>step_log := step_log s @ [(f x s, Returned)]\<rparr>) Q"
      by (rule Cons.IH) (use Cons.prems in \<open>simp add: f\<close>)
  qed
qed

lemma fetch_deps_good:
  assumes G: "\<And>c r. G (c, r) \<Longrightarrow> r = Returned"
    and q: "logs N q"
    and rest: "\<And>ext. map (\<lambda>x. (step_name (fst x), snd x)) ext =
          map (\<lambda>n. (n, Returned))
            ([''which go'', ''go mod download''] @
             map (\<lambda>t. ''go install '' @ t) install_targets) \<Longrightarrow>
        good_run G q (s\<lparr>step_log := step_log s @ ext\<rparr>) Q"
  shows "good_run G (seq (fetch_deps a) q) s Q"
proof -
  from q have qU: "logs UNIV q" by (rule logs_mono) simp
  show ?thesis
    unfolding fetch_deps_flat seq_assoc
    apply (rule good_run_step[where N=UNIV])
      apply (erule G)
     apply (intro logs_univ logs_univ_for_each_step qU)
    apply (rule good_run_retry[where N=UNIV])
       apply (erule G)
      apply simp
     apply (intro logs_univ logs_univ_for_each_step qU)
    apply (rule for_each_good)
       apply (erule G)
      apply simp
     apply (rule qU)
    apply simp
    apply (rule rest)
    apply (simp add: step_name_call comp_def)
    done
qed

lemma sanity_check_seq: "sanity_check a = seq (sanity_check a) (\<lambda>s. (Returned, s))"
  by (simp add: seq_return_right)

lemma with_builder_good:
  assumes G: "\<And>c r. G (c, r) \<Longrightarrow> r = Returned"
    and PATH: "map_of (env s) ''PATH'' = Some (Str p)"
    and rest: "\<And>ext e. map (\<lambda>x. (step_name (fst x), snd x)) ext =
          map (\<lambda>n. (n, Returned)) (tail_steps b) \<Longrightarrow>
        Q (Returned, s\<lparr>env := e, step_log := step_log s @ ext\<rparr>)"
  shows "good_run G
    (seq (start_emulators a b) (seq (test_env a) (seq (run_tests a b) (sanity_check a)))) s Q"
proof (cases "str_in ''Large'' b \<or> str_in ''Race'' b")
  case LR: True
  show ?thesis
  proof (cases "str_in ''Build'' b")
    case True
    show ?thesis
      apply (subst sanity_check_seq)
      unfolding start_emulators_def run_tests_def sanity_check_def
      apply (simp only: LR True if_True seqs_Cons seqs_Nil seq_assoc seq_return_left)
      apply (rule good_run_step[where N=UNIV])
        apply (erule G)
       apply (intro logs_univ)
      apply (rule good_run_pure[OF set_env_def])+
      apply (rule good_run_pure[OF test_env_eq])
       apply (simp add: update_conv' PATH)
      apply (rule good_run_step[where N=UNIV])
        apply (erule G)
       apply (intro logs_univ)
      apply (rule good_run_step_const[where N=UNIV])
        apply (erule G)
       apply (intro logs_univ)
      apply (rule good_run_end)
      apply simp
      apply (rule rest)
      apply (simp add: step_name_call tail_steps_def LR True)
      done
  next
    case False
    show ?thesis
      apply (subst sanity_check_seq)
      unfolding start_emulators_def run_tests_def sanity_check_def
      apply (simp only: LR False if_True if_False seqs_Cons seqs_Nil seq_assoc seq_return_left)
      apply (rule good_run_step[where N=UNIV])
        apply (erule G)
       apply (intro logs_univ)
      apply (rule good_run_pure[OF set_env_def])+
      apply (rule good_run_pure[OF test_env_eq])
       apply (simp add: update_conv' PATH)
      apply (rule good_run_try_step[where N=UNIV])
         apply (erule G)
        apply (intro logs_univ)
       apply (intro logs_univ)
      apply (rule good_run_step[where N=UNIV])
        apply (erule G)
       apply (intro logs_univ)
      apply (rule good_run_step_const[where N=UNIV])
        apply (erule G)
       apply (intro logs_univ)
      apply (rule good_run_end)
      apply simp
      apply (rule rest)
      apply (simp add: step_name_call tail_steps_def LR False)
      done
  qed
next
  case LR: False
  show ?thesis
  proof (cases "str_in ''Build'' b")
    case True
    show ?thesis
      apply (subst sanity_check_seq)
      unfolding start_emulators_def run_tests_def sanity_check_def
      apply (simp only: LR True if_True if_False seqs_Cons seqs_Nil seq_assoc seq_return_left seq_skip_left)
      apply (rule good_run_pure[OF test_env_eq])
       apply (simp add: update_conv' PATH)
      apply (rule good_run_step[where N=UNIV])
        apply (erule G)
       apply (intro logs_univ)
      apply (rule good_run_step_const[where N=UNIV])
        apply (erule G)
       apply (intro logs_univ)
      apply (rule good_run_end)
      apply simp
      apply (rule rest)
      apply (simp add: step_name_call tail_steps_def LR True)
      done
  next
    case False
    show ?thesis
      apply (subst sanity_check_seq)
      unfolding start_emulators_def run_tests_def sanity_check_def
      apply (simp only: LR False if_True if_False seqs_Cons seqs_Nil seq_assoc seq_return_left seq_skip_left)
      apply (rule good_run_pure[OF test_env_eq])
       apply (simp add: update_conv' PATH)
      apply (rule good_run_try_step[where N=UNIV])
         apply (erule G)
        apply (intro logs_univ)
       apply (intro logs_univ)
      apply (simp only: seq_skip_left)
      apply (rule good_run_step_const[where N=UNIV])
        apply (erule G)
       apply (intro logs_univ)
      apply (rule good_run_end)
      apply simp
      apply (rule rest)
      apply (simp add: step_name_call tail_steps_def LR False)
      done
  qed
qed

subsection \<open>A run in which every step succeeds\<close>

lemmas run_eval = RunSteps_def hack_start_dir_def set_depot_tools_def seq_def init_git_def
  step_eq bind_env_def base_env_def fetch_deps_def retry_def numeral_3_eq_3 install_targets_def
  with_builder_def start_emulators_def test_env_def run_tests_def sanity_check_def
  try_finally_def set_env_def skip_def update_conv' step_name_call

lemma step_names_outcomes: "step_names s = map fst (outcomes s)"
  by (simp add: step_names_def outcomes_def comp_def)

lemma RunSteps_seq:
  assumes "map_of (properties a) ''buildername'' = Some b"
  shows "RunSteps a = seq hack_start_dir (seq set_depot_tools
    (seq (init_git a) (seq (bind_env a) (seq (fetch_deps a)
    (seq (start_emulators a b) (seq (test_env a) (seq (run_tests a b) (sanity_check a))))))))"
  using assms
  by (simp add: RunSteps_def with_builder_def seqs_Cons seqs_Nil seq_assoc
      seq_return_left seq_return_right)

lemma logs_fetch_deps: "logs UNIV (fetch_deps a)"
  unfolding fetch_deps_flat by (intro logs_univ logs_univ_for_each_step)

lemma logs_init_git: "logs UNIV (init_git a)"
  unfolding init_git_def by (rule logs_seqs) (auto intro: logs_univ_step)

lemma logs_start_emulators: "logs UNIV (start_emulators a b)"
  unfolding start_emulators_def seqs_Cons seqs_Nil
  by (simp add: logs_univ)

lemma logs_run_tests: "logs UNIV (run_tests a b)"
  unfolding run_tests_def by (simp add: logs_univ)

lemma logs_sanity_check: "logs UNIV (sanity_check a)"
  unfolding sanity_check_def by (rule logs_univ_step)

lemmas logs_phases = logs_univ logs_fetch_deps logs_init_git logs_start_emulators
  logs_run_tests logs_sanity_check

lemma good_run_paths:
  assumes "map_of (base_paths s) ''start_dir'' = Some sd" "sd \<noteq> []"
    and "\<And>bp. good_run G q (s\<lparr>base_paths := bp\<rparr>) Q"
  shows "good_run G (seq hack_start_dir (seq set_depot_tools q)) s Q"
  using assms(3) by (simp add: good_run_def hack_start_dir_ok[OF assms(1,2)])

text \<open>
  C1. A run from an empty log, with \<open>start_dir\<close> configured and the builder name given:
  if every step that was executed returned, then \<open>RunSteps\<close> returns (the run
  succeeds) and the steps were executed in the order of their declaration, each once:
  \<open>git init\<close>, \<open>git add\<close>, \<open>git commit\<close>, \<open>which go\<close>, \<open>go mod download\<close>, the seven
  \<open>go install\<close> steps, the start of the emulators when the name has \<open>Large\<close> or
  \<open>Race\<close>, the build or test step the name selects, the stop of the emulators after
  the test step, and \<open>git diff go.mod\<close>.
\<close>

theorem all_steps_succeed:
  assumes fresh: "step_log s = []"
    and sd: "map_of (base_paths s) ''start_dir'' = Some sd" "sd \<noteq> []"
    and b: "map_of (properties a) ''buildername'' = Some builder"
    and H: "\<forall>(c, r)\<in>set (step_log (snd (RunSteps a s))). r = Returned"
  shows "fst (RunSteps a s) = Returned \<and>
    step_names (snd (RunSteps a s)) = declared_steps builder"
proof -
  define G :: "step_call \<times> result \<Rightarrow> bool" where "G = (\<lambda>x. snd x = Returned)"
  define Q :: "result \<times> state \<Rightarrow> bool" where
    "Q = (\<lambda>x. fst x = Returned \<and>
        outcomes (snd x) = map (\<lambda>n. (n, Returned)) (declared_steps builder))"
  have G: "\<And>c r. G (c, r) \<Longrightarrow> r = Returned" by (simp add: G_def)
  have "good_run G (RunSteps a) s Q"
    unfolding RunSteps_seq[OF b]
    apply (rule good_run_paths[OF sd])
    apply (rule init_git_good[where N=UNIV])
      apply (erule G)
     apply (intro logs_phases)
    apply (rule good_run_pure[OF bind_env_def])
    apply (rule fetch_deps_good[where N=UNIV])
      apply (erule G)
     apply (intro logs_phases)
    apply (rule with_builder_good)
      apply (erule G)
     apply (simp add: map_of_base_env_PATH)
    apply (simp add: Q_def fresh declared_steps_def tail_steps_def outcomes_def)
    done
  moreover have "all_good G (snd (RunSteps a s))"
    using H by (auto simp: all_good_def G_def)
  ultimately have "Q (RunSteps a s)" by (simp add: good_run_def)
  then show ?thesis by (simp add: Q_def step_names_outcomes comp_def)
qed

text \<open>The test \<open>Infra-PerCommit-Large\<close> of \<open>GenTests\<close>, every step returning.\<close>

lemma in_outcomes: "(c, r) \<in> set (step_log s) \<Longrightarrow> (step_name c, r) \<in> set (outcomes s)"
  by (force simp: outcomes_def)

lemma outcomes_in:
  "(n, r) \<in> set (outcomes s) \<Longrightarrow> \<exists>c. (c, r) \<in> set (step_log s) \<and> step_name c = n"
  by (auto simp: outcomes_def)

lemma run_large_ok:
  "fst (RunSteps (test_api ''Infra-PerCommit-Large'' always_ok) kitchen) = Returned \<and>
   outcomes (snd (RunSteps (test_api ''Infra-PerCommit-Large'' always_ok) kitchen)) =
   [(''git init'', Returned), (''git add'', Returned), (''git commit'', Returned),
    (''which go'', Returned), (''go mod download'', Returned),
    (''go install github.com/golang/protobuf/protoc-gen-go'', Returned),
    (''go install github.com/kisielk/errcheck'', Returned),
    (''go install golang.org/x/tools/cmd/goimports'', Returned),
    (''go install golang.org/x/tools/cmd/stringer'', Returned),
    (''go install github.com/GeertJohan/go.rice/rice'', Returned),
    (''go install github.com/twitchtv/twirp/protoc-gen-twirp'', Returned),
    (''go install go.larrymyers.com/protoc-gen-twirp_typescript'', Returned),
    (''start the cloud emulators'', Returned), (''run_unittests'', Returned),
    (''stop the cloud emulators'', Returned), (''git diff go.mod'', Returned)]"
  by (simp add: run_eval outcomes_def test_api_def kitchen_def always_ok_def)

lemma kitchen_start_dir:
  "map_of (base_paths kitchen) ''start_dir'' = Some [''b'', ''work'', ''k'']"
  by (simp add: kitchen_def)

theorem all_steps_succeed_witness:
  "fst (RunSteps (test_api ''Infra-PerCommit-Large'' always_ok) kitchen) = Returned \<and>
   step_names (snd (RunSteps (test_api ''Infra-PerCommit-Large'' always_ok) kitchen)) =
   [''git init'', ''git add'', ''git commit'', ''which go'', ''go mod download'',
    ''go install github.com/golang/protobuf/protoc-gen-go'',
    ''go install github.com/kisielk/errcheck'',
    ''go install golang.org/x/tools/cmd/goimports'',
    ''go install golang.org/x/tools/cmd/stringer'',
    ''go install github.com/GeertJohan/go.rice/rice'',
    ''go install github.com/twitchtv/twirp/protoc-gen-twirp'',
    ''go install go.larrymyers.com/protoc-gen-twirp_typescript'',
    ''start the cloud emulators'', ''run_unittests'', ''stop the cloud emulators'',
    ''git diff go.mod'']"
proof -
  let ?a = "test_api ''Infra-PerCommit-Large'' always_ok"
  have H: "\<forall>(c, r)\<in>set (step_log (snd (RunSteps ?a kitchen))). r = Returned"
    using run_large_ok by (auto dest!: in_outcomes)
  from all_steps_succeed[OF kitchen_log kitchen_start_dir _ _ H, of "''Infra-PerCommit-Large''"]
  show ?thesis
    by (simp add: test_api_properties declared_steps_def install_targets_def)
qed

subsection \<open>A dependency fetch that fails on every attempt\<close>

lemma retry_loop_all_fail:
  assumes "all_good G (snd (retry_loop a n c exc s))"
    and G: "\<And>r. G (c, r) \<Longrightarrow> \<exists>m. r = Raised (StepFailure m)"
  shows "\<forall>i<n. \<exists>m. step_outcome a (length (step_log s) + i) c = Raised (StepFailure m)"
  using assms(1)
proof (induction n arbitrary: s exc)
  case 0
  show ?case by simp
next
  case (Suc n)
  let ?o = "step_outcome a (length (step_log s)) c"
  have "logs UNIV (retry_loop a (Suc n) c exc)" by (rule logs_retry_loop) simp
  have first: "\<exists>m. ?o = Raised (StepFailure m)"
  proof (cases "\<exists>e. ?o = Raised e \<and> is_StepFailure e")
    case True
    then obtain e where e: "?o = Raised e" "is_StepFailure e" by blast
    then show ?thesis by (cases e) simp_all
  next
    case False
    then have "step_log (snd (retry_loop a (Suc n) c exc s)) = step_log s @ [(c, ?o)]"
      by (cases ?o) (auto simp: step_eq)
    with Suc.prems have "G (c, ?o)" by (simp add: all_good_def)
    from G[OF this] show ?thesis .
  qed
  then obtain m where m: "?o = Raised (StepFailure m)" by blast
  let ?s' = "s\<lparr>step_log := step_log s @ [(c, Raised (StepFailure m))]\<rparr>"
  from Suc.prems have "all_good G (snd (retry_loop a n c (Some (StepFailure m)) ?s'))"
    unfolding retry_loop_failed_attempt[OF m] .
  from Suc.IH[OF this]
  have rest: "\<forall>i<n. \<exists>m. step_outcome a (Suc (length (step_log s)) + i) c = Raised (StepFailure m)"
    by simp
  show ?case
  proof (intro allI impI)
    fix i assume "i < Suc n"
    show "\<exists>m. step_outcome a (length (step_log s) + i) c = Raised (StepFailure m)"
    proof (cases i)
      case 0
      with m show ?thesis by simp
    next
      case (Suc j)
      with \<open>i < Suc n\<close> rest show ?thesis by simp
    qed
  qed
qed

lemma good_run_retry_fails:
  assumes G: "\<And>r. G (f s, r) \<Longrightarrow> \<exists>m. r = Raised (StepFailure m)"
    and q: "logs N q"
    and rest: "\<And>m1 m2 m3. Q (Raised (StepFailure m3),
        s\<lparr>step_log := step_log s @ [(f s, Raised (StepFailure m1)),
           (f s, Raised (StepFailure m2)), (f s, Raised (StepFailure m3))]\<rparr>)"
  shows "good_run G (seq (\<lambda>s. retry a 3 (f s) s) q) s Q"
  unfolding good_run_def
proof
  let ?p = "\<lambda>s. retry a 3 (f s) s"
  let ?l = "length (step_log s)"
  assume H: "all_good G (snd (seq ?p q s))"
  have "all_good G (snd (retry_loop a 3 (f s) None s))"
    using all_good_seq[OF H q] by (simp add: retry_def)
  from retry_loop_all_fail[OF this G]
  have fails: "\<forall>i<3. \<exists>m. step_outcome a (?l + i) (f s) = Raised (StepFailure m)" by simp
  then obtain m1 m2 m3 where
    m: "step_outcome a ?l (f s) = Raised (StepFailure m1)"
      "step_outcome a (Suc ?l) (f s) = Raised (StepFailure m2)"
      "step_outcome a (Suc (Suc ?l)) (f s) = Raised (StepFailure m3)"
    by (metis One_nat_def Suc_1 add_Suc_right add_cancel_left_right lessI less_SucI numeral_3_eq_3)
  from retry_loop_exhausted[OF fails, of None]
  have "?p s = (Raised (StepFailure m3),
        s\<lparr>step_log := step_log s @ [(f s, Raised (StepFailure m1)),
           (f s, Raised (StepFailure m2)), (f s, Raised (StepFailure m3))]\<rparr>)"
    using m by (simp add: retry_def attempts_log_def numeral_3_eq_3)
  then show "Q (seq ?p q s)"
    using rest by (simp add: seq_Raised)
qed

lemma logs_builder_part:
  "logs UNIV (\<lambda>s. case map_of (properties a) ''buildername'' of
        None \<Rightarrow> (Raised KeyError, s)
      | Some builder \<Rightarrow> with_builder a builder s)"
proof (cases "map_of (properties a) ''buildername''")
  case None
  then show ?thesis by (simp add: logs_pure)
next
  case (Some b)
  have "logs UNIV (with_builder a b)"
    unfolding with_builder_def seqs_Cons seqs_Nil by (intro logs_phases)
  with Some show ?thesis by (simp add: logs_def)
qed

lemma RunSteps_deps:
  "RunSteps a = seq hack_start_dir (seq set_depot_tools
    (seq (init_git a) (seq (bind_env a) (seq (fetch_deps a)
      (\<lambda>s. case map_of (properties a) ''buildername'' of
        None \<Rightarrow> (Raised KeyError, s)
      | Some builder \<Rightarrow> with_builder a builder s)))))"
  by (simp add: RunSteps_def seqs_Cons seqs_Nil seq_return_right)

lemma run_large_download_fails:
  "fst (RunSteps (test_api ''Infra-PerCommit-Large'' download_fails) kitchen) =
     Raised (StepFailure ''go mod download'') \<and>
   outcomes (snd (RunSteps (test_api ''Infra-PerCommit-Large'' download_fails) kitchen)) =
   [(''git init'', Returned), (''git add'', Returned), (''git commit'', Returned),
    (''which go'', Returned),
    (''go mod download'', Raised (StepFailure ''go mod download'')),
    (''go mod download'', Raised (StepFailure ''go mod download'')),
    (''go mod download'', Raised (StepFailure ''go mod download''))]"
  by (simp add: run_eval outcomes_def test_api_def kitchen_def download_fails_def)

text \<open>
  C5, as the spec states it, fails: for the builder \<open>Infra-PerCommit-Large\<close> with
  \<open>go mod download\<close> failing on its three attempts, the run fails, and neither the start
  nor the stop of the emulators is run.
\<close>

theorem download_failure_counterexample:
  "fst (RunSteps (test_api ''Infra-PerCommit-Large'' download_fails) kitchen) =
     Raised (StepFailure ''go mod download'') \<and>
   ''start the cloud emulators'' \<notin>
     set (step_names (snd (RunSteps (test_api ''Infra-PerCommit-Large'' download_fails) kitchen))) \<and>
   ''stop the cloud emulators'' \<notin>
     set (step_names (snd (RunSteps (test_api ''Infra-PerCommit-Large'' download_fails) kitchen)))"
  using run_large_download_fails by (simp add: step_names_outcomes)

text \<open>
  C5, amended. A run from an empty log with \<open>start_dir\<close> configured, for any builder
  name: if every attempt of \<open>go mod download\<close> that was executed raised a \<open>StepFailure\<close>
  and every other executed step returned, then \<open>RunSteps\<close> raises the failure of the
  third attempt, and the steps run are exactly \<open>git init\<close>, \<open>git add\<close>, \<open>git commit\<close>,
  \<open>which go\<close> and the three attempts of \<open>go mod download\<close>: no emulator step is run.
\<close>

theorem download_failure_aborts:
  assumes fresh: "step_log s = []"
    and sd: "map_of (base_paths s) ''start_dir'' = Some sd" "sd \<noteq> []"
    and H: "\<forall>(c, r)\<in>set (step_log (snd (RunSteps a s))).
       if step_name c = ''go mod download'' then (\<exists>m. r = Raised (StepFailure m))
       else r = Returned"
  shows "\<exists>m1 m2 m3.
    fst (RunSteps a s) = Raised (StepFailure m3) \<and>
    outcomes (snd (RunSteps a s)) =
      [(''git init'', Returned), (''git add'', Returned), (''git commit'', Returned),
       (''which go'', Returned),
       (''go mod download'', Raised (StepFailure m1)),
       (''go mod download'', Raised (StepFailure m2)),
       (''go mod download'', Raised (StepFailure m3))]"
proof -
  define G :: "step_call \<times> result \<Rightarrow> bool" where
    "G = (\<lambda>x. if step_name (fst x) = ''go mod download''
       then (\<exists>m. snd x = Raised (StepFailure m)) else snd x = Returned)"
  define Q :: "result \<times> state \<Rightarrow> bool" where
    "Q = (\<lambda>x. \<exists>m1 m2 m3. fst x = Raised (StepFailure m3) \<and>
      outcomes (snd x) =
      [(''git init'', Returned), (''git add'', Returned), (''git commit'', Returned),
       (''which go'', Returned),
       (''go mod download'', Raised (StepFailure m1)),
       (''go mod download'', Raised (StepFailure m2)),
       (''go mod download'', Raised (StepFailure m3))])"
  have G1: "\<And>c r. G (c, r) \<Longrightarrow> step_name c \<noteq> ''go mod download'' \<Longrightarrow> r = Returned"
    by (simp add: G_def)
  have G2: "\<And>c r. G (c, r) \<Longrightarrow> step_name c = ''go mod download'' \<Longrightarrow>
      \<exists>m. r = Raised (StepFailure m)"
    by (simp add: G_def)
  have "good_run G (RunSteps a) s Q"
    unfolding RunSteps_deps fetch_deps_flat seq_assoc
    apply (rule good_run_paths[OF sd])
    apply (rule init_git_good[where N=UNIV])
      apply (erule G1, auto)[1]
     apply (intro logs_phases logs_univ_for_each_step logs_builder_part)
    apply (rule good_run_pure[OF bind_env_def])
    apply (rule good_run_step[where N=UNIV])
      apply (erule G1, simp add: step_name_call)
     apply (intro logs_phases logs_univ_for_each_step logs_builder_part)
    apply (rule good_run_retry_fails[where N=UNIV])
      apply (erule G2, simp add: step_name_call)
     apply (intro logs_phases logs_univ_for_each_step logs_builder_part)
    apply (simp add: Q_def outcomes_def fresh step_name_call)
    done
  moreover have "all_good G (snd (RunSteps a s))"
    using H by (auto simp: all_good_def G_def)
  ultimately have "Q (RunSteps a s)" by (simp add: good_run_def)
  then show ?thesis by (simp add: Q_def)
qed

theorem download_failure_aborts_witness:
  "\<exists>m1 m2 m3.
    fst (RunSteps (test_api ''Infra-PerCommit-Large'' download_fails) kitchen) =
      Raised (StepFailure m3) \<and>
    outcomes (snd (RunSteps (test_api ''Infra-PerCommit-Large'' download_fails) kitchen)) =
      [(''git init'', Returned), (''git add'', Returned), (''git commit'', Returned),
       (''which go'', Returned),
       (''go mod download'', Raised (StepFailure m1)),
       (''go mod download'', Raised (StepFailure m2)),
       (''go mod download'', Raised (StepFailure m3))]"
proof -
  let ?a = "test_api ''Infra-PerCommit-Large'' download_fails"
  have H: "\<forall>(c, r)\<in>set (step_log (snd (RunSteps ?a kitchen))).
       if step_name c = ''go mod download'' then (\<exists>m. r = Raised (StepFailure m))
       else r = Returned"
    using run_large_download_fails by (auto dest!: in_outcomes)
  show ?thesis
    by (rule download_failure_aborts[OF kitchen_log kitchen_start_dir _ H]) simp
qed

subsection \<open>How a run reaches the build or test step\<close>

lemma seq_Returned_iff:
  "seq p q s = (Returned, s') \<longleftrightarrow> (\<exists>s1. p s = (Returned, s1) \<and> q s1 = (Returned, s'))"
  by (cases "p s"; cases "fst (p s)") (auto simp: seq_def)

lemma logs_early_init_git: "logs early_names (init_git a)"
  unfolding init_git_def
  by (rule logs_seqs) (auto intro!: logs_step simp: step_name_call early_names_def)

lemma logs_early_fetch_deps: "logs early_names (fetch_deps a)"
  unfolding fetch_deps_flat
  by (intro logs_seq logs_for_each logs_step_fun logs_retry_fun)
     (simp_all add: step_name_call early_names_def)

lemma logs_hack_start_dir: "logs N hack_start_dir"
  by (rule logs_pure) (simp add: hack_start_dir_def split: option.splits)

lemma logs_set_depot_tools: "logs N set_depot_tools"
  by (rule logs_pure) (simp add: set_depot_tools_def split: option.splits)

lemma logs_before_tests: "logs early_names (before_tests a)"
  unfolding before_tests_def
  by (intro logs_seq logs_hack_start_dir logs_set_depot_tools logs_early_init_git
      logs_bind_env logs_early_fetch_deps)

lemma keeps_fetch_deps: "keeps (fetch_deps a)"
  unfolding fetch_deps_flat
  by (intro keeps_seq keeps_for_each keeps_step_fun keeps_retry_fun)

lemma before_tests_env:
  assumes "before_tests a s = (Returned, s1)"
  shows "env s1 = base_env a (base_paths s1)"
proof -
  from assms obtain sa sb sc where
    "init_git a sb = (Returned, sc)" and f: "seq (bind_env a) (fetch_deps a) sc = (Returned, s1)"
    unfolding before_tests_def seq_Returned_iff by blast
  from f have "fetch_deps a (sc\<lparr>env := base_env a (base_paths sc)\<rparr>) = (Returned, s1)"
    by (simp add: seq_def bind_env_def)
  then have "s1 = snd (fetch_deps a (sc\<lparr>env := base_env a (base_paths sc)\<rparr>))" by simp
  then show ?thesis
    by (simp add: keeps_env[OF keeps_fetch_deps] keeps_base_paths[OF keeps_fetch_deps])
qed

lemma before_tests_base_paths:
  assumes "before_tests a s = (Returned, s1)"
  shows "base_paths s1 = configured_paths (base_paths s)"
proof -
  from assms obtain sa sb sc where
    h: "hack_start_dir s = (Returned, sa)" and d: "set_depot_tools sa = (Returned, sb)"
    and g: "init_git a sb = (Returned, sc)"
    and f: "seq (bind_env a) (fetch_deps a) sc = (Returned, s1)"
    unfolding before_tests_def seq_Returned_iff by blast
  from h d have "base_paths sb = configured_paths (base_paths s)"
    by (auto simp: hack_start_dir_def set_depot_tools_def configured_paths_def update_conv'
        split: option.splits if_splits)
  moreover have "keeps (init_git a)"
    unfolding init_git_def by (rule keeps_seqs) (auto intro: keeps_step)
  with g have "base_paths sc = base_paths sb"
    using keeps_base_paths[of "init_git a" sb] by simp
  moreover from f have "fetch_deps a (sc\<lparr>env := base_env a (base_paths sc)\<rparr>) = (Returned, s1)"
    by (simp add: seq_def bind_env_def)
  then have "base_paths s1 = base_paths sc"
    using keeps_base_paths[OF keeps_fetch_deps, of a "sc\<lparr>env := base_env a (base_paths sc)\<rparr>"]
    by simp
  ultimately show ?thesis by simp
qed

lemma RunSteps_before_tests:
  "RunSteps a = seq (before_tests a)
      (\<lambda>s. case map_of (properties a) ''buildername'' of
        None \<Rightarrow> (Raised KeyError, s)
      | Some builder \<Rightarrow> with_builder a builder s)"
  by (simp add: RunSteps_deps before_tests_def seq_assoc)

lemma with_builder_seq:
  "with_builder a b =
     seq (start_emulators a b) (seq (test_env a) (seq (run_tests a b) (sanity_check a)))"
  by (simp add: with_builder_def seqs_Cons seqs_Nil seq_return_right)

text \<open>Lines 103 to 115 from a state whose \<open>env\<close> is the dict of line 64.\<close>

lemma prerequisites_cases:
  assumes env: "env s = base_env a (base_paths s)"
  obtains (not_started) "\<not> (str_in ''Large'' b \<or> str_in ''Race'' b)"
      "seq (start_emulators a b) (seq (test_env a) q) s =
         q (s\<lparr>env := tests_env a b (base_paths s)\<rparr>)"
  | (start_failed) c e where "str_in ''Large'' b \<or> str_in ''Race'' b"
      "step_name c = ''start the cloud emulators''"
      "seq (start_emulators a b) (seq (test_env a) q) s =
         (Raised e, s\<lparr>step_log := step_log s @ [(c, Raised e)]\<rparr>)"
  | (started) c where "str_in ''Large'' b \<or> str_in ''Race'' b"
      "step_name c = ''start the cloud emulators''"
      "seq (start_emulators a b) (seq (test_env a) q) s =
         q (s\<lparr>step_log := step_log s @ [(c, Returned)], env := tests_env a b (base_paths s)\<rparr>)"
proof (cases "str_in ''Large'' b \<or> str_in ''Race'' b")
  case False
  have "seq (start_emulators a b) (seq (test_env a) q) s =
         q (s\<lparr>env := tests_env a b (base_paths s)\<rparr>)"
    using False env
    by (simp add: start_emulators_def seq_skip_left seq_def test_env_def set_env_def
        map_of_base_env_PATH update_conv' tests_env_def seqs_Cons seqs_Nil)
  with False show ?thesis by (rule not_started)
next
  case True
  let ?c = "call infra_dir (Some (env s)) ''start the cloud emulators''
           [PathV run_emulators, Str ''start'']"
  let ?o = "step_outcome a (length (step_log s)) ?c"
  have name: "step_name ?c = ''start the cloud emulators''" by (simp add: step_name_call)
  show ?thesis
  proof (cases ?o)
    case Returned
    have "seq (start_emulators a b) (seq (test_env a) q) s =
         q (s\<lparr>step_log := step_log s @ [(?c, Returned)], env := tests_env a b (base_paths s)\<rparr>)"
      using True env Returned
      by (simp add: start_emulators_def seq_def test_env_def set_env_def step_eq
        map_of_base_env_PATH update_conv' tests_env_def emulator_env_def seqs_Cons seqs_Nil)
    with True name show ?thesis by (rule started)
  next
    case (Raised e)
    have "seq (start_emulators a b) (seq (test_env a) q) s =
         (Raised e, s\<lparr>step_log := step_log s @ [(?c, Raised e)]\<rparr>)"
      using True Raised
      by (simp add: start_emulators_def seq_def step_eq seqs_Cons seqs_Nil)
    with True name show ?thesis by (rule start_failed)
  qed
qed

text \<open>
  A run ends before the build or test step, having run early steps only and at most a
  failed start of the emulators, or it reaches that step: with the early steps run, the
  emulators started for a \<open>Large\<close> or \<open>Race\<close> builder, and \<open>env\<close> as line 115 leaves
  it.
\<close>

lemma RunSteps_cases:
  obtains (early) e ext where
      "fst (RunSteps a s) = Raised e"
      "step_log (snd (RunSteps a s)) = step_log s @ ext"
      "\<forall>x\<in>set ext. step_name (fst x) \<in> early_names \<or>
          step_name (fst x) = ''start the cloud emulators'' \<and> snd x \<noteq> Returned"
  | (plain) b s1 ext where
      "map_of (properties a) ''buildername'' = Some b"
      "\<not> (str_in ''Large'' b \<or> str_in ''Race'' b)"
      "RunSteps a s = seq (run_tests a b) (sanity_check a) s1"
      "env s1 = tests_env a b (base_paths s1)"
      "base_paths s1 = configured_paths (base_paths s)"
      "step_log s1 = step_log s @ ext"
      "\<forall>x\<in>set ext. step_name (fst x) \<in> early_names"
  | (emulators) b s1 ext c where
      "map_of (properties a) ''buildername'' = Some b"
      "str_in ''Large'' b \<or> str_in ''Race'' b"
      "RunSteps a s = seq (run_tests a b) (sanity_check a) s1"
      "env s1 = tests_env a b (base_paths s1)"
      "base_paths s1 = configured_paths (base_paths s)"
      "step_log s1 = step_log s @ ext @ [(c, Returned)]"
      "step_name c = ''start the cloud emulators''"
      "\<forall>x\<in>set ext. step_name (fst x) \<in> early_names"
proof -
  let ?B = "\<lambda>s. case map_of (properties a) ''buildername'' of
        None \<Rightarrow> (Raised KeyError, s)
      | Some builder \<Rightarrow> with_builder a builder s"
  obtain ext0 where ext0: "step_log (snd (before_tests a s)) = step_log s @ ext0"
    and names0: "\<forall>x\<in>set ext0. step_name (fst x) \<in> early_names"
    using logs_before_tests by (rule logsD)
  show ?thesis
  proof (cases rule: seq_cases[of "before_tests a" s ?B])
    case (raised e s1)
    then have "fst (RunSteps a s) = Raised e" "step_log (snd (RunSteps a s)) = step_log s @ ext0"
      using ext0 by (simp_all add: RunSteps_before_tests)
    then show ?thesis using names0 by (intro early[of e ext0]) auto
  next
    case (returned s1)
    note run = returned(2)[folded RunSteps_before_tests]
    from returned(1) ext0 have log1: "step_log s1 = step_log s @ ext0" by simp
    from returned(1) have env1: "env s1 = base_env a (base_paths s1)"
      by (rule before_tests_env)
    from returned(1) have bp1: "base_paths s1 = configured_paths (base_paths s)"
      by (rule before_tests_base_paths)
    show ?thesis
    proof (cases "map_of (properties a) ''buildername''")
      case None
      with run log1 have "fst (RunSteps a s) = Raised KeyError"
        "step_log (snd (RunSteps a s)) = step_log s @ ext0" by simp_all
      then show ?thesis using names0 by (intro early[of KeyError ext0]) auto
    next
      case (Some b)
      let ?q = "seq (run_tests a b) (sanity_check a)"
      from run Some have run': "RunSteps a s =
          seq (start_emulators a b) (seq (test_env a) ?q) s1"
        by (simp add: with_builder_seq)
      from env1 show ?thesis
      proof (cases rule: prerequisites_cases[where b=b and q="?q"])
        case not_started
        show ?thesis
        proof (rule plain[OF Some not_started(1)])
          show "RunSteps a s = ?q (s1\<lparr>env := tests_env a b (base_paths s1)\<rparr>)"
            using run' not_started(2) by simp
        qed (use log1 bp1 names0 in simp_all)
      next
        case (start_failed c e)
        with run' log1 have "fst (RunSteps a s) = Raised e"
          "step_log (snd (RunSteps a s)) = step_log s @ (ext0 @ [(c, Raised e)])"
          by simp_all
        then show ?thesis
          using names0 start_failed(2) by (intro early[of e "ext0 @ [(c, Raised e)]"]) auto
      next
        case (started c)
        show ?thesis
        proof (rule emulators[OF Some started(1)])
          show "RunSteps a s = ?q (s1\<lparr>step_log := step_log s1 @ [(c, Returned)],
              env := tests_env a b (base_paths s1)\<rparr>)"
            using run' started(3) by simp
        qed (use log1 bp1 names0 started(2) in simp_all)
      qed
    qed
  qed
qed

text \<open>Lines 117 to 141, on each of their paths.\<close>

lemma tests_with_emulators:
  assumes "\<not> str_in ''Build'' b" "str_in ''Large'' b \<or> str_in ''Race'' b"
  shows "seq (run_tests a b) (sanity_check a) s =
    (let cu = call infra_dir (Some (env s)) ''run_unittests'' (unittests_cmd b);
         cs = call infra_dir (Some (env s)) ''stop the cloud emulators''
                [PathV run_emulators, Str ''stop''];
         cd = call infra_dir None ''git diff go.mod''
                [Str ''git'', Str ''diff'', Str ''--no-ext-diff'', Str ''--exit-code'', Str ''go.mod''];
         l = length (step_log s);
         o1 = step_outcome a l cu;
         o2 = step_outcome a (Suc l) cs;
         o3 = step_outcome a (Suc (Suc l)) cd
     in if o2 \<noteq> Returned then (o2, s\<lparr>step_log := step_log s @ [(cu, o1), (cs, o2)]\<rparr>)
        else if o1 \<noteq> Returned then (o1, s\<lparr>step_log := step_log s @ [(cu, o1), (cs, o2)]\<rparr>)
        else (o3, s\<lparr>step_log := step_log s @ [(cu, o1), (cs, o2), (cd, o3)]\<rparr>))"
  using assms
  by (simp add: run_tests_def try_finally_def seq_def step_eq sanity_check_def Let_def
      split: result.splits)

lemma tests_without_emulators:
  assumes "\<not> str_in ''Build'' b" "\<not> (str_in ''Large'' b \<or> str_in ''Race'' b)"
  shows "seq (run_tests a b) (sanity_check a) s =
    (let cu = call infra_dir (Some (env s)) ''run_unittests'' (unittests_cmd b);
         cd = call infra_dir None ''git diff go.mod''
                [Str ''git'', Str ''diff'', Str ''--no-ext-diff'', Str ''--exit-code'', Str ''go.mod''];
         l = length (step_log s);
         o1 = step_outcome a l cu;
         o3 = step_outcome a (Suc l) cd
     in if o1 \<noteq> Returned then (o1, s\<lparr>step_log := step_log s @ [(cu, o1)]\<rparr>)
        else (o3, s\<lparr>step_log := step_log s @ [(cu, o1), (cd, o3)]\<rparr>))"
  using assms
  by (simp add: run_tests_def try_finally_def seq_def step_eq sanity_check_def Let_def skip_def
      split: result.splits)

lemma build_run:
  assumes "str_in ''Build'' b"
  shows "seq (run_tests a b) (sanity_check a) s =
    (let cm = call infra_dir (Some (env s)) ''make all'' [Str ''make'', Str ''all''];
         cd = call infra_dir None ''git diff go.mod''
                [Str ''git'', Str ''diff'', Str ''--no-ext-diff'', Str ''--exit-code'', Str ''go.mod''];
         l = length (step_log s);
         o1 = step_outcome a l cm;
         o3 = step_outcome a (Suc l) cd
     in if o1 \<noteq> Returned then (o1, s\<lparr>step_log := step_log s @ [(cm, o1)]\<rparr>)
        else (o3, s\<lparr>step_log := step_log s @ [(cm, o1), (cd, o3)]\<rparr>))"
  using assms
  by (simp add: run_tests_def seq_def step_eq sanity_check_def Let_def
      split: result.splits)

lemma not_early [simp]:
  "''run_unittests'' \<notin> early_names" "''make all'' \<notin> early_names"
  "''stop the cloud emulators'' \<notin> early_names" "''start the cloud emulators'' \<notin> early_names"
  "''git diff go.mod'' \<notin> early_names"
  by (auto simp: early_names_def)

subsection \<open>A failing test step and a failing stop of the emulators\<close>

lemma run_large_tests_and_stop_fail:
  "fst (RunSteps (test_api ''Infra-PerCommit-Large'' tests_and_stop_fail) kitchen) =
     Raised (StepFailure ''stop the cloud emulators'') \<and>
   outcomes (snd (RunSteps (test_api ''Infra-PerCommit-Large'' tests_and_stop_fail) kitchen)) =
   [(''git init'', Returned), (''git add'', Returned), (''git commit'', Returned),
    (''which go'', Returned), (''go mod download'', Returned),
    (''go install github.com/golang/protobuf/protoc-gen-go'', Returned),
    (''go install github.com/kisielk/errcheck'', Returned),
    (''go install golang.org/x/tools/cmd/goimports'', Returned),
    (''go install golang.org/x/tools/cmd/stringer'', Returned),
    (''go install github.com/GeertJohan/go.rice/rice'', Returned),
    (''go install github.com/twitchtv/twirp/protoc-gen-twirp'', Returned),
    (''go install go.larrymyers.com/protoc-gen-twirp_typescript'', Returned),
    (''start the cloud emulators'', Returned),
    (''run_unittests'', Raised (StepFailure ''run_unittests'')),
    (''stop the cloud emulators'', Raised (StepFailure ''stop the cloud emulators''))]"
  by (simp add: run_eval outcomes_def test_api_def kitchen_def tests_and_stop_fail_def)

text \<open>
  C6, as the spec states it, fails: for the builder \<open>Infra-PerCommit-Large\<close> with
  \<open>run_unittests\<close> failing and the stop of the emulators failing after it, both
  failures are recorded, and the exception that \<open>RunSteps\<close> raises is the failure of the
  stop, not the failure of \<open>run_unittests\<close>.
\<close>

theorem cleanup_failure_counterexample:
  "(''run_unittests'', Raised (StepFailure ''run_unittests'')) \<in>
     set (outcomes (snd (RunSteps (test_api ''Infra-PerCommit-Large'' tests_and_stop_fail) kitchen))) \<and>
   (''stop the cloud emulators'', Raised (StepFailure ''stop the cloud emulators'')) \<in>
     set (outcomes (snd (RunSteps (test_api ''Infra-PerCommit-Large'' tests_and_stop_fail) kitchen))) \<and>
   fst (RunSteps (test_api ''Infra-PerCommit-Large'' tests_and_stop_fail) kitchen) =
     Raised (StepFailure ''stop the cloud emulators'') \<and>
   fst (RunSteps (test_api ''Infra-PerCommit-Large'' tests_and_stop_fail) kitchen) \<noteq>
     Raised (StepFailure ''run_unittests'')"
  using run_large_tests_and_stop_fail by simp

text \<open>
  C6, amended. In every run from an empty log in which \<open>run_unittests\<close> raises and the
  stop of the emulators raises too, both failures are recorded, in this order, as the last
  two steps of the run (no further step is run), and the exception that \<open>RunSteps\<close>
  raises is the one of the stop: the later failure replaces the earlier one.
\<close>

theorem cleanup_failure_propagates:
  assumes fresh: "step_log s = []"
    and t: "(c1, Raised e1) \<in> set (step_log (snd (RunSteps a s)))"
      "step_name c1 = ''run_unittests''"
    and u: "(c2, Raised e2) \<in> set (step_log (snd (RunSteps a s)))"
      "step_name c2 = ''stop the cloud emulators''"
  shows "fst (RunSteps a s) = Raised e2 \<and>
    (\<exists>before. step_log (snd (RunSteps a s)) = before @ [(c1, Raised e1), (c2, Raised e2)])"
proof (cases rule: RunSteps_cases[of a s])
  case (early e ext)
  with t fresh show ?thesis by force
next
  case (plain b s1 ext)
  show ?thesis
  proof (cases "str_in ''Build'' b")
    case True
    from t u show ?thesis
      unfolding plain(3) build_run[OF True] using plain(6,7) fresh
      by (auto simp: Let_def step_name_call split: if_splits)
  next
    case False
    from t u show ?thesis
      unfolding plain(3) tests_without_emulators[OF False plain(2)] using plain(6,7) fresh
      by (auto simp: Let_def step_name_call split: if_splits)
  qed
next
  case (emulators b s1 ext c)
  show ?thesis
  proof (cases "str_in ''Build'' b")
    case True
    from t u show ?thesis
      unfolding emulators(3) build_run[OF True] using emulators(6,7,8) fresh
      by (auto simp: Let_def step_name_call split: if_splits)
  next
    case False
    from t u show ?thesis
      unfolding emulators(3) tests_with_emulators[OF False emulators(2)]
      using emulators(6,7,8) fresh
      by (auto simp: Let_def step_name_call split: if_splits)
  qed
qed

theorem cleanup_failure_propagates_witness:
  "fst (RunSteps (test_api ''Infra-PerCommit-Large'' tests_and_stop_fail) kitchen) =
     Raised (StepFailure ''stop the cloud emulators'')"
proof -
  let ?a = "test_api ''Infra-PerCommit-Large'' tests_and_stop_fail"
  obtain c1 where c1: "(c1, Raised (StepFailure ''run_unittests'')) \<in>
      set (step_log (snd (RunSteps ?a kitchen)))" "step_name c1 = ''run_unittests''"
    using outcomes_in[of "''run_unittests''" "Raised (StepFailure ''run_unittests'')"
        "snd (RunSteps ?a kitchen)"] run_large_tests_and_stop_fail
    by auto
  obtain c2 where c2: "(c2, Raised (StepFailure ''stop the cloud emulators'')) \<in>
      set (step_log (snd (RunSteps ?a kitchen)))" "step_name c2 = ''stop the cloud emulators''"
    using outcomes_in[of "''stop the cloud emulators''"
        "Raised (StepFailure ''stop the cloud emulators'')"
        "snd (RunSteps ?a kitchen)"] run_large_tests_and_stop_fail
    by auto
  from cleanup_failure_propagates[OF kitchen_log c1 c2] show ?thesis by simp
qed

subsection \<open>The environment of the build or test step\<close>

lemma tests_env_keys:
  "map fst (tests_env a b bp) =
     [''CHROME_HEADLESS'', ''DOCKER_CONFIG'', ''GOCACHE'', ''GOFLAGS'', ''GOROOT'', ''GOPATH'',
      ''GIT_USER_AGENT'', ''PATH''] @
     (if str_in ''Large'' b \<or> str_in ''Race'' b
      then [''DATASTORE_EMULATOR_HOST'', ''BIGTABLE_EMULATOR_HOST'', ''PUBSUB_EMULATOR_HOST'',
            ''FIRESTORE_EMULATOR_HOST'', ''COCKROACHDB_EMULATOR_HOST'']
      else []) @
     [''SKIABOT_TEST_DEPOT_TOOLS'']"
  by (simp add: tests_env_def emulator_env_def base_env_def update_keys)

lemma tests_env_hosts:
  assumes "str_in ''Large'' b \<or> str_in ''Race'' b"
  shows "map_of (tests_env a b bp) ''DATASTORE_EMULATOR_HOST'' = Some (Str ''localhost:8891'')"
    and "map_of (tests_env a b bp) ''BIGTABLE_EMULATOR_HOST'' = Some (Str ''localhost:8892'')"
    and "map_of (tests_env a b bp) ''PUBSUB_EMULATOR_HOST'' = Some (Str ''localhost:8893'')"
    and "map_of (tests_env a b bp) ''FIRESTORE_EMULATOR_HOST'' = Some (Str ''localhost:8894'')"
    and "map_of (tests_env a b bp) ''COCKROACHDB_EMULATOR_HOST'' = Some (Str ''localhost:8895'')"
  using assms by (simp_all add: tests_env_def emulator_env_def update_conv')

text \<open>The build or test step of a run is called with the environment of line 115.\<close>

lemma main_step_env:
  assumes fresh: "step_log s = []"
    and b: "map_of (properties a) ''buildername'' = Some builder"
    and c: "(c, r) \<in> set (step_log (snd (RunSteps a s)))"
      "step_name c = ''make all'' \<or> step_name c = ''run_unittests''"
  shows "step_env c = Some (tests_env a builder (configured_paths (base_paths s)))"
proof (cases rule: RunSteps_cases[of a s])
  case (early e ext)
  with c fresh show ?thesis by force
next
  case (plain b' s1 ext)
  from b plain(1) have eq: "b' = builder" by simp
  note p = plain[unfolded eq]
  show ?thesis
  proof (cases "str_in ''Build'' builder")
    case True
    from c show ?thesis
      unfolding p(3) build_run[OF True] using p(4,5,6,7) fresh
      by (auto simp: Let_def step_name_call call_def split: if_splits)
  next
    case False
    from c show ?thesis
      unfolding p(3) tests_without_emulators[OF False p(2)]
      using p(4,5,6,7) fresh
      by (auto simp: Let_def step_name_call call_def split: if_splits)
  qed
next
  case (emulators b' s1 ext c')
  from b emulators(1) have eq: "b' = builder" by simp
  note p = emulators[unfolded eq]
  show ?thesis
  proof (cases "str_in ''Build'' builder")
    case True
    from c show ?thesis
      unfolding p(3) build_run[OF True] using p(4,5,6,7,8) fresh
      by (auto simp: Let_def step_name_call call_def split: if_splits)
  next
    case False
    from c show ?thesis
      unfolding p(3) tests_with_emulators[OF False p(2)]
      using p(4,5,6,7,8) fresh
      by (auto simp: Let_def step_name_call call_def split: if_splits)
  qed
qed

lemma keeps_run_tests: "keeps (run_tests a b)"
  unfolding run_tests_def
  by (simp add: keeps_try_finally keeps_step_fun keeps_skip)

lemma keeps_sanity_check: "keeps (sanity_check a)"
  unfolding sanity_check_def by (rule keeps_step)

text \<open>A run that returns leaves \<open>env\<close> as line 115 made it.\<close>

lemma successful_run_env:
  assumes "RunSteps a s = (Returned, s')"
  shows "\<exists>b. map_of (properties a) ''buildername'' = Some b \<and>
    base_paths s' = configured_paths (base_paths s) \<and>
    env s' = tests_env a b (base_paths s')"
proof -
  have k: "keeps (seq (run_tests a b) (sanity_check a))" for b
    by (intro keeps_seq keeps_run_tests keeps_sanity_check)
  show ?thesis
  proof (cases rule: RunSteps_cases[of a s])
    case (early e ext)
    with assms show ?thesis by simp
  next
    case (plain b s1 ext)
    from assms plain(3) have "s' = snd (seq (run_tests a b) (sanity_check a) s1)" by simp
    then have "env s' = env s1" "base_paths s' = base_paths s1"
      using keeps_env[OF k, of b s1] keeps_base_paths[OF k, of b s1] by simp_all
    with plain show ?thesis by simp
  next
    case (emulators b s1 ext c)
    from assms emulators(3) have "s' = snd (seq (run_tests a b) (sanity_check a) s1)" by simp
    then have "env s' = env s1" "base_paths s' = base_paths s1"
      using keeps_env[OF k, of b s1] keeps_base_paths[OF k, of b s1] by simp_all
    with emulators show ?thesis by simp
  qed
qed

lemma run_small_ok:
  "fst (RunSteps (test_api ''Infra-PerCommit-Small'' always_ok) kitchen) = Returned \<and>
   outcomes (snd (RunSteps (test_api ''Infra-PerCommit-Small'' always_ok) kitchen)) =
   [(''git init'', Returned), (''git add'', Returned), (''git commit'', Returned),
    (''which go'', Returned), (''go mod download'', Returned),
    (''go install github.com/golang/protobuf/protoc-gen-go'', Returned),
    (''go install github.com/kisielk/errcheck'', Returned),
    (''go install golang.org/x/tools/cmd/goimports'', Returned),
    (''go install golang.org/x/tools/cmd/stringer'', Returned),
    (''go install github.com/GeertJohan/go.rice/rice'', Returned),
    (''go install github.com/twitchtv/twirp/protoc-gen-twirp'', Returned),
    (''go install go.larrymyers.com/protoc-gen-twirp_typescript'', Returned),
    (''run_unittests'', Returned), (''git diff go.mod'', Returned)]"
  by (simp add: run_eval outcomes_def test_api_def kitchen_def always_ok_def)

lemma run_large_env:
  "map fst (env (snd (RunSteps (test_api ''Infra-PerCommit-Large'' always_ok) kitchen))) =
     [''CHROME_HEADLESS'', ''DOCKER_CONFIG'', ''GOCACHE'', ''GOFLAGS'', ''GOROOT'', ''GOPATH'',
      ''GIT_USER_AGENT'', ''PATH'', ''DATASTORE_EMULATOR_HOST'', ''BIGTABLE_EMULATOR_HOST'',
      ''PUBSUB_EMULATOR_HOST'', ''FIRESTORE_EMULATOR_HOST'', ''COCKROACHDB_EMULATOR_HOST'',
      ''SKIABOT_TEST_DEPOT_TOOLS'']"
proof -
  let ?a = "test_api ''Infra-PerCommit-Large'' always_ok"
  have "RunSteps ?a kitchen = (Returned, snd (RunSteps ?a kitchen))"
    using run_large_ok by (simp add: prod_eq_iff)
  from successful_run_env[OF this] show ?thesis
    by (auto simp: test_api_properties tests_env_keys)
qed

lemma run_small_env:
  "map fst (env (snd (RunSteps (test_api ''Infra-PerCommit-Small'' always_ok) kitchen))) =
     [''CHROME_HEADLESS'', ''DOCKER_CONFIG'', ''GOCACHE'', ''GOFLAGS'', ''GOROOT'', ''GOPATH'',
      ''GIT_USER_AGENT'', ''PATH'', ''SKIABOT_TEST_DEPOT_TOOLS'']"
proof -
  let ?a = "test_api ''Infra-PerCommit-Small'' always_ok"
  have "RunSteps ?a kitchen = (Returned, snd (RunSteps ?a kitchen))"
    using run_small_ok by (simp add: prod_eq_iff)
  from successful_run_env[OF this] show ?thesis
    by (auto simp: test_api_properties tests_env_keys)
qed

text \<open>
  C7, as the spec states it, fails on the number of variables: the run of
  \<open>Infra-PerCommit-Large\<close> ends with the five variables \<open>DATASTORE_EMULATOR_HOST\<close>,
  \<open>BIGTABLE_EMULATOR_HOST\<close>, \<open>PUBSUB_EMULATOR_HOST\<close>, \<open>FIRESTORE_EMULATOR_HOST\<close> and
  \<open>COCKROACHDB_EMULATOR_HOST\<close> in \<open>env\<close>, five more variables than the run of
  \<open>Infra-PerCommit-Small\<close>, not four.
\<close>

theorem emulator_hosts_counterexample:
  "map fst (env (snd (RunSteps (test_api ''Infra-PerCommit-Large'' always_ok) kitchen))) =
     [''CHROME_HEADLESS'', ''DOCKER_CONFIG'', ''GOCACHE'', ''GOFLAGS'', ''GOROOT'', ''GOPATH'',
      ''GIT_USER_AGENT'', ''PATH'', ''DATASTORE_EMULATOR_HOST'', ''BIGTABLE_EMULATOR_HOST'',
      ''PUBSUB_EMULATOR_HOST'', ''FIRESTORE_EMULATOR_HOST'', ''COCKROACHDB_EMULATOR_HOST'',
      ''SKIABOT_TEST_DEPOT_TOOLS''] \<and>
   length (env (snd (RunSteps (test_api ''Infra-PerCommit-Large'' always_ok) kitchen))) =
     length (env (snd (RunSteps (test_api ''Infra-PerCommit-Small'' always_ok) kitchen))) + 5 \<and>
   length (env (snd (RunSteps (test_api ''Infra-PerCommit-Large'' always_ok) kitchen))) \<noteq>
     length (env (snd (RunSteps (test_api ''Infra-PerCommit-Small'' always_ok) kitchen))) + 4"
proof -
  let ?l = "env (snd (RunSteps (test_api ''Infra-PerCommit-Large'' always_ok) kitchen))"
  let ?s = "env (snd (RunSteps (test_api ''Infra-PerCommit-Small'' always_ok) kitchen))"
  have "length ?l = length (map fst ?l)" "length ?s = length (map fst ?s)" by simp_all
  then have "length ?l = 14" "length ?s = 9"
    unfolding run_large_env run_small_env by simp_all
  with run_large_env show ?thesis by simp
qed

text \<open>
  C7, amended. For every builder name, the environment with which the build or test step
  of a run is called has the emulator host variables if and only if the name contains
  \<open>Large\<close> or \<open>Race\<close>: its keys are the eight of line 64, then, for such a name only,
  the five emulator host variables, then \<open>SKIABOT_TEST_DEPOT_TOOLS\<close>; and the five
  variables hold \<open>localhost:8891\<close> to \<open>localhost:8895\<close>.
\<close>

theorem emulator_hosts_injected:
  assumes fresh: "step_log s = []"
    and b: "map_of (properties a) ''buildername'' = Some builder"
    and c: "(c, r) \<in> set (step_log (snd (RunSteps a s)))"
      "step_name c = ''make all'' \<or> step_name c = ''run_unittests''"
  shows "\<exists>e. step_env c = Some e \<and>
     map fst e =
       [''CHROME_HEADLESS'', ''DOCKER_CONFIG'', ''GOCACHE'', ''GOFLAGS'', ''GOROOT'', ''GOPATH'',
        ''GIT_USER_AGENT'', ''PATH''] @
       (if str_in ''Large'' builder \<or> str_in ''Race'' builder
        then [''DATASTORE_EMULATOR_HOST'', ''BIGTABLE_EMULATOR_HOST'', ''PUBSUB_EMULATOR_HOST'',
              ''FIRESTORE_EMULATOR_HOST'', ''COCKROACHDB_EMULATOR_HOST'']
        else []) @
       [''SKIABOT_TEST_DEPOT_TOOLS''] \<and>
     (str_in ''Large'' builder \<or> str_in ''Race'' builder \<longrightarrow>
        map_of e ''DATASTORE_EMULATOR_HOST'' = Some (Str ''localhost:8891'') \<and>
        map_of e ''BIGTABLE_EMULATOR_HOST'' = Some (Str ''localhost:8892'') \<and>
        map_of e ''PUBSUB_EMULATOR_HOST'' = Some (Str ''localhost:8893'') \<and>
        map_of e ''FIRESTORE_EMULATOR_HOST'' = Some (Str ''localhost:8894'') \<and>
        map_of e ''COCKROACHDB_EMULATOR_HOST'' = Some (Str ''localhost:8895''))"
  using main_step_env[OF assms] tests_env_keys tests_env_hosts by simp

theorem emulator_hosts_injected_witness:
  "\<exists>c r e. (c, r) \<in> set (step_log (snd (RunSteps
        (test_api ''Infra-PerCommit-Large'' always_ok) kitchen))) \<and>
     step_name c = ''run_unittests'' \<and> step_env c = Some e \<and>
     map fst e =
       [''CHROME_HEADLESS'', ''DOCKER_CONFIG'', ''GOCACHE'', ''GOFLAGS'', ''GOROOT'', ''GOPATH'',
        ''GIT_USER_AGENT'', ''PATH'', ''DATASTORE_EMULATOR_HOST'', ''BIGTABLE_EMULATOR_HOST'',
        ''PUBSUB_EMULATOR_HOST'', ''FIRESTORE_EMULATOR_HOST'', ''COCKROACHDB_EMULATOR_HOST'',
        ''SKIABOT_TEST_DEPOT_TOOLS''] \<and>
     map_of e ''DATASTORE_EMULATOR_HOST'' = Some (Str ''localhost:8891'') \<and>
     map_of e ''COCKROACHDB_EMULATOR_HOST'' = Some (Str ''localhost:8895'')"
proof -
  let ?a = "test_api ''Infra-PerCommit-Large'' always_ok"
  obtain c where c: "(c, Returned) \<in> set (step_log (snd (RunSteps ?a kitchen)))"
      "step_name c = ''run_unittests''"
    using outcomes_in[of "''run_unittests''" Returned "snd (RunSteps ?a kitchen)"] run_large_ok
    by auto
  have b: "map_of (properties ?a) ''buildername'' = Some ''Infra-PerCommit-Large''"
    by (simp add: test_api_properties)
  from emulator_hosts_injected[OF kitchen_log b c(1)] c(2)
  obtain e where "step_env c = Some e"
    "map fst e =
       [''CHROME_HEADLESS'', ''DOCKER_CONFIG'', ''GOCACHE'', ''GOFLAGS'', ''GOROOT'', ''GOPATH'',
        ''GIT_USER_AGENT'', ''PATH'', ''DATASTORE_EMULATOR_HOST'', ''BIGTABLE_EMULATOR_HOST'',
        ''PUBSUB_EMULATOR_HOST'', ''FIRESTORE_EMULATOR_HOST'', ''COCKROACHDB_EMULATOR_HOST'',
        ''SKIABOT_TEST_DEPOT_TOOLS'']"
    "map_of e ''DATASTORE_EMULATOR_HOST'' = Some (Str ''localhost:8891'')"
    "map_of e ''COCKROACHDB_EMULATOR_HOST'' = Some (Str ''localhost:8895'')"
    by auto
  with c show ?thesis
    by (intro exI[of _ c] exI[of _ Returned] exI[of _ e] conjI)
qed

subsection \<open>The dict \<open>env\<close> over a run\<close>

text \<open>
  C8, as the spec states it, fails: the dict that line 64 binds to \<open>env\<close> does not stay
  as it was built. At the end of the run of \<open>Infra-PerCommit-Small\<close> that dict is no
  longer the dict of lines 64 to 81.
\<close>

theorem env_counterexample:
  "env (snd (RunSteps (test_api ''Infra-PerCommit-Small'' always_ok) kitchen)) \<noteq>
   base_env (test_api ''Infra-PerCommit-Small'' always_ok)
     (base_paths (snd (RunSteps (test_api ''Infra-PerCommit-Small'' always_ok) kitchen)))"
proof
  let ?a = "test_api ''Infra-PerCommit-Small'' always_ok"
  assume "env (snd (RunSteps ?a kitchen)) = base_env ?a (base_paths (snd (RunSteps ?a kitchen)))"
  then have "map fst (env (snd (RunSteps ?a kitchen))) =
      map fst (base_env ?a (base_paths (snd (RunSteps ?a kitchen))))" by simp
  then show False
    unfolding run_small_env by (simp add: base_env_def)
qed

text \<open>
  C8, amended. The environment of a run is determined by its inputs: two runs that
  return, from the same state, with the same \<open>pathsep\<close>, path rendering and properties,
  end with equal \<open>env\<close> whatever their steps did, and no call of \<open>api.step\<close> changes
  \<open>env\<close>. But the dict bound at line 64 is not preserved: lines 106 to 115 update it in
  place. When the run returns, \<open>env\<close> has the new key \<open>SKIABOT_TEST_DEPOT_TOOLS\<close>, its
  \<open>PATH\<close> is the \<open>PATH\<close> of line 64 with the depot tools directory appended, and every
  key other than these two and the five emulator host variables has the value of line
  64.
\<close>

theorem env_updated_in_place:
  assumes run: "RunSteps a s = (Returned, s')"
  shows "map_of (base_env a (base_paths s')) ''SKIABOT_TEST_DEPOT_TOOLS'' = None \<and>
    map_of (env s') ''SKIABOT_TEST_DEPOT_TOOLS'' = Some (PathV depot_tools) \<and>
    (\<exists>p. map_of (base_env a (base_paths s')) ''PATH'' = Some (Str p) \<and>
         map_of (env s') ''PATH'' =
           Some (Str (str_join (pathsep a) [p, path_str a (base_paths s') depot_tools]))) \<and>
    (\<forall>k. k \<notin> {''PATH'', ''SKIABOT_TEST_DEPOT_TOOLS'', ''DATASTORE_EMULATOR_HOST'',
              ''BIGTABLE_EMULATOR_HOST'', ''PUBSUB_EMULATOR_HOST'', ''FIRESTORE_EMULATOR_HOST'',
              ''COCKROACHDB_EMULATOR_HOST''} \<longrightarrow>
         map_of (env s') k = map_of (base_env a (base_paths s')) k) \<and>
    (\<forall>c s0. env (snd (step a c s0)) = env s0) \<and>
    (\<forall>a' s''. pathsep a' = pathsep a \<and> path_str a' = path_str a \<and>
         properties a' = properties a \<and> RunSteps a' s = (Returned, s'') \<longrightarrow> env s'' = env s')"
proof -
  from successful_run_env[OF run] obtain b where
    b: "map_of (properties a) ''buildername'' = Some b"
    and bp: "base_paths s' = configured_paths (base_paths s)"
    and e: "env s' = tests_env a b (base_paths s')" by blast
  have 1: "map_of (base_env a (base_paths s')) ''SKIABOT_TEST_DEPOT_TOOLS'' = None"
    by (simp add: base_env_def)
  have 2: "map_of (env s') ''SKIABOT_TEST_DEPOT_TOOLS'' = Some (PathV depot_tools)"
    by (simp add: e tests_env_def update_conv')
  have 3: "\<exists>p. map_of (base_env a (base_paths s')) ''PATH'' = Some (Str p) \<and>
         map_of (env s') ''PATH'' =
           Some (Str (str_join (pathsep a) [p, path_str a (base_paths s') depot_tools]))"
    by (simp add: e tests_env_def update_conv' map_of_base_env_PATH)
  have 4: "\<forall>k. k \<notin> {''PATH'', ''SKIABOT_TEST_DEPOT_TOOLS'', ''DATASTORE_EMULATOR_HOST'',
              ''BIGTABLE_EMULATOR_HOST'', ''PUBSUB_EMULATOR_HOST'', ''FIRESTORE_EMULATOR_HOST'',
              ''COCKROACHDB_EMULATOR_HOST''} \<longrightarrow>
         map_of (env s') k = map_of (base_env a (base_paths s')) k"
    by (simp add: e tests_env_def emulator_env_def update_conv')
  have 5: "\<forall>c s0. env (snd (step a c s0)) = env s0"
    by (simp add: step_eq)
  have 6: "\<forall>a' s''. pathsep a' = pathsep a \<and> path_str a' = path_str a \<and>
         properties a' = properties a \<and> RunSteps a' s = (Returned, s'') \<longrightarrow> env s'' = env s'"
  proof (intro allI impI)
    fix a' s''
    assume h: "pathsep a' = pathsep a \<and> path_str a' = path_str a \<and>
         properties a' = properties a \<and> RunSteps a' s = (Returned, s'')"
    then have "RunSteps a' s = (Returned, s'')" by simp
    from successful_run_env[OF this] h b bp e show "env s'' = env s'"
      by (auto simp: tests_env_def base_env_def)
  qed
  from 1 2 3 4 5 6 show ?thesis by blast
qed

theorem env_updated_in_place_witness:
  "map_of (base_env (test_api ''Infra-PerCommit-Small'' always_ok)
      (base_paths (snd (RunSteps (test_api ''Infra-PerCommit-Small'' always_ok) kitchen))))
     ''SKIABOT_TEST_DEPOT_TOOLS'' = None \<and>
   map_of (env (snd (RunSteps (test_api ''Infra-PerCommit-Small'' always_ok) kitchen)))
     ''SKIABOT_TEST_DEPOT_TOOLS'' = Some (PathV depot_tools)"
proof -
  let ?a = "test_api ''Infra-PerCommit-Small'' always_ok"
  have "RunSteps ?a kitchen = (Returned, snd (RunSteps ?a kitchen))"
    using run_small_ok by (simp add: prod_eq_iff)
  from env_updated_in_place[OF this] show ?thesis by blast
qed

subsection \<open>Started emulators and their stop\<close>

text \<open>
  On the test branch the pairing holds. In a run for a builder name without \<open>Build\<close>,
  once the start of the emulators has returned, the run goes on with \<open>run_unittests\<close>
  and then the stop of the emulators, whatever \<open>run_unittests\<close> did; \<open>git diff go.mod\<close>
  follows only when both returned, and nothing else is run. So the stop runs exactly
  once, and a failure of the test step keeps every later step but the stop from running.
\<close>

lemma emulators_stopped_once:
  assumes fresh: "step_log s = []"
    and b: "map_of (properties a) ''buildername'' = Some builder"
    and nb: "\<not> str_in ''Build'' builder"
    and started: "(c, Returned) \<in> set (step_log (snd (RunSteps a s)))"
      "step_name c = ''start the cloud emulators''"
  shows "\<exists>before cu o1 cs o2 rest.
      step_log (snd (RunSteps a s)) = before @ [(c, Returned), (cu, o1), (cs, o2)] @ rest \<and>
      step_name cu = ''run_unittests'' \<and> step_name cs = ''stop the cloud emulators'' \<and>
      (\<forall>x\<in>set before. step_name (fst x) \<in> early_names) \<and>
      (rest = [] \<or> o1 = Returned \<and> o2 = Returned \<and>
         (\<exists>cd o3. rest = [(cd, o3)] \<and> step_name cd = ''git diff go.mod''))"
proof (cases rule: RunSteps_cases[of a s])
  case (early e ext)
  with started fresh show ?thesis by force
next
  case (plain b' s1 ext)
  from b plain(1) have eq: "b' = builder" by simp
  note p = plain[unfolded eq]
  from started show ?thesis
    unfolding p(3) tests_without_emulators[OF nb p(2)] using p(6,7) fresh
    by (auto simp: Let_def step_name_call split: if_splits)
next
  case (emulators b' s1 ext c')
  from b emulators(1) have eq: "b' = builder" by simp
  note p = emulators[unfolded eq]
  let ?cu = "call infra_dir (Some (env s1)) ''run_unittests'' (unittests_cmd builder)"
  let ?cs = "call infra_dir (Some (env s1)) ''stop the cloud emulators''
                [PathV run_emulators, Str ''stop'']"
  let ?cd = "call infra_dir None ''git diff go.mod''
                [Str ''git'', Str ''diff'', Str ''--no-ext-diff'', Str ''--exit-code'', Str ''go.mod'']"
  let ?l = "length (step_log s1)"
  let ?o1 = "step_outcome a ?l ?cu"
  let ?o2 = "step_outcome a (Suc ?l) ?cs"
  let ?o3 = "step_outcome a (Suc (Suc ?l)) ?cd"
  let ?rest = "if ?o2 = Returned \<and> ?o1 = Returned then [(?cd, ?o3)] else []"
  have log: "step_log (snd (RunSteps a s)) = ext @ [(c', Returned), (?cu, ?o1), (?cs, ?o2)] @ ?rest"
    unfolding p(3) tests_with_emulators[OF nb p(2)] using p(6) fresh
    by (simp add: Let_def)
  have "c = c'"
    using started p(7,8) unfolding log
    by (auto simp: step_name_call split: if_splits)
  with log p(8) show ?thesis
    by (intro exI[of _ ext] exI[of _ ?cu] exI[of _ ?o1] exI[of _ ?cs] exI[of _ ?o2]
        exI[of _ ?rest]) (auto simp: step_name_call)
qed

text \<open>
  C2 at a builder name with both \<open>Build\<close> and \<open>Large\<close>, every step returning: the
  emulators are started (line 103 only asks for \<open>Large\<close> or \<open>Race\<close>), \<open>make all\<close> runs
  on the \<open>Build\<close> branch, which has no \<open>finally\<close>, and the run returns without the stop
  of the emulators ever being run.
\<close>

theorem build_large_never_stops:
  "fst (RunSteps (test_api ''Infra-PerCommit-Build-Large'' always_ok) kitchen) = Returned \<and>
   outcomes (snd (RunSteps (test_api ''Infra-PerCommit-Build-Large'' always_ok) kitchen)) =
   [(''git init'', Returned), (''git add'', Returned), (''git commit'', Returned),
    (''which go'', Returned), (''go mod download'', Returned),
    (''go install github.com/golang/protobuf/protoc-gen-go'', Returned),
    (''go install github.com/kisielk/errcheck'', Returned),
    (''go install golang.org/x/tools/cmd/goimports'', Returned),
    (''go install golang.org/x/tools/cmd/stringer'', Returned),
    (''go install github.com/GeertJohan/go.rice/rice'', Returned),
    (''go install github.com/twitchtv/twirp/protoc-gen-twirp'', Returned),
    (''go install go.larrymyers.com/protoc-gen-twirp_typescript'', Returned),
    (''start the cloud emulators'', Returned), (''make all'', Returned),
    (''git diff go.mod'', Returned)]"
  by (simp add: run_eval outcomes_def test_api_def kitchen_def always_ok_def)

subsection \<open>The branch of the build or test step\<close>

lemma run_tests_log:
  "step_log (snd (run_tests a b s)) =
     step_log s @
     (if str_in ''Build'' b
      then [(call infra_dir (Some (env s)) ''make all'' [Str ''make'', Str ''all''],
             step_outcome a (length (step_log s))
               (call infra_dir (Some (env s)) ''make all'' [Str ''make'', Str ''all'']))]
      else (call infra_dir (Some (env s)) ''run_unittests'' (unittests_cmd b),
            step_outcome a (length (step_log s))
              (call infra_dir (Some (env s)) ''run_unittests'' (unittests_cmd b))) #
           (if str_in ''Large'' b \<or> str_in ''Race'' b
            then [(call infra_dir (Some (env s)) ''stop the cloud emulators''
                     [PathV run_emulators, Str ''stop''],
                   step_outcome a (Suc (length (step_log s)))
                     (call infra_dir (Some (env s)) ''stop the cloud emulators''
                       [PathV run_emulators, Str ''stop'']))]
            else []))"
  by (simp add: run_tests_def try_finally_snd step_eq skip_def)

text \<open>
  C3. For every builder name, lines 117 to 136 run exactly one build or test step, and
  which one is decided by the first of these that holds: the name contains \<open>Build\<close>
  (\<open>make all\<close>); else it contains \<open>Race\<close> (the unit tests with \<open>--race --large --medium
  --small\<close>); else \<open>Large\<close> (\<open>--large\<close>); else \<open>Medium\<close> (\<open>--medium\<close>); else, for
  every other name, \<open>--small\<close>. The five conditions exclude one another and cover every
  name, so exactly one branch is taken.
\<close>

theorem branch_selection:
  "(str_in ''Build'' b \<longrightarrow>
      main_step a b s = call infra_dir (Some (env s)) ''make all'' [Str ''make'', Str ''all'']) \<and>
   (\<not> str_in ''Build'' b \<and> str_in ''Race'' b \<longrightarrow>
      main_step a b s = call infra_dir (Some (env s)) ''run_unittests''
        [Str ''go'', Str ''run'', Str ''./run_unittests.go'', Str ''--alsologtostderr'',
         Str ''--race'', Str ''--large'', Str ''--medium'', Str ''--small'']) \<and>
   (\<not> str_in ''Build'' b \<and> \<not> str_in ''Race'' b \<and> str_in ''Large'' b \<longrightarrow>
      main_step a b s = call infra_dir (Some (env s)) ''run_unittests''
        [Str ''go'', Str ''run'', Str ''./run_unittests.go'', Str ''--alsologtostderr'',
         Str ''--large'']) \<and>
   (\<not> str_in ''Build'' b \<and> \<not> str_in ''Race'' b \<and> \<not> str_in ''Large'' b \<and>
    str_in ''Medium'' b \<longrightarrow>
      main_step a b s = call infra_dir (Some (env s)) ''run_unittests''
        [Str ''go'', Str ''run'', Str ''./run_unittests.go'', Str ''--alsologtostderr'',
         Str ''--medium'']) \<and>
   (\<not> str_in ''Build'' b \<and> \<not> str_in ''Race'' b \<and> \<not> str_in ''Large'' b \<and>
    \<not> str_in ''Medium'' b \<longrightarrow>
      main_step a b s = call infra_dir (Some (env s)) ''run_unittests''
        [Str ''go'', Str ''run'', Str ''./run_unittests.go'', Str ''--alsologtostderr'',
         Str ''--small'']) \<and>
   length (step_log s) < length (step_log (snd (run_tests a b s))) \<and>
   length (main_steps (drop (length (step_log s)) (step_log (snd (run_tests a b s))))) = 1"
  by (simp add: main_step_def main_steps_def run_tests_log unittests_cmd_def step_name_call
      nth_append)

text \<open>The five builders of \<open>GenTests\<close>, one for each branch.\<close>

theorem branch_selection_witness:
  "main_step (test_api ''Infra-PerCommit-Build'' always_ok) ''Infra-PerCommit-Build'' kitchen =
     call infra_dir (Some []) ''make all'' [Str ''make'', Str ''all''] \<and>
   main_step (test_api ''Infra-PerCommit-Race'' always_ok) ''Infra-PerCommit-Race'' kitchen =
     call infra_dir (Some []) ''run_unittests''
        [Str ''go'', Str ''run'', Str ''./run_unittests.go'', Str ''--alsologtostderr'',
         Str ''--race'', Str ''--large'', Str ''--medium'', Str ''--small''] \<and>
   main_step (test_api ''Infra-PerCommit-Large'' always_ok) ''Infra-PerCommit-Large'' kitchen =
     call infra_dir (Some []) ''run_unittests''
        [Str ''go'', Str ''run'', Str ''./run_unittests.go'', Str ''--alsologtostderr'',
         Str ''--large''] \<and>
   main_step (test_api ''Infra-PerCommit-Medium'' always_ok) ''Infra-PerCommit-Medium'' kitchen =
     call infra_dir (Some []) ''run_unittests''
        [Str ''go'', Str ''run'', Str ''./run_unittests.go'', Str ''--alsologtostderr'',
         Str ''--medium''] \<and>
   main_step (test_api ''Infra-PerCommit-Small'' always_ok) ''Infra-PerCommit-Small'' kitchen =
     call infra_dir (Some []) ''run_unittests''
        [Str ''go'', Str ''run'', Str ''./run_unittests.go'', Str ''--alsologtostderr'',
         Str ''--small'']"
proof -
  have e: "env kitchen = []" by (simp add: kitchen_def)
  show ?thesis
    using
      branch_selection[of "''Infra-PerCommit-Build''" "test_api ''Infra-PerCommit-Build'' always_ok" kitchen]
      branch_selection[of "''Infra-PerCommit-Race''" "test_api ''Infra-PerCommit-Race'' always_ok" kitchen]
      branch_selection[of "''Infra-PerCommit-Large''" "test_api ''Infra-PerCommit-Large'' always_ok" kitchen]
      branch_selection[of "''Infra-PerCommit-Medium''" "test_api ''Infra-PerCommit-Medium'' always_ok" kitchen]
      branch_selection[of "''Infra-PerCommit-Small''" "test_api ''Infra-PerCommit-Small'' always_ok" kitchen]
    by (simp add: e)
qed

section \<open>Properties of the presubmit checks\<close>

lemma scan_lines_empty: "scan_lines n ls = [] \<longleftrightarrow> list_all decodes_ascii ls"
  by (induction ls arbitrary: n) auto

lemma scan_files_empty:
  "scan_files i fs fw mx = Inr (fw', mx') \<Longrightarrow>
     (fw' = [] \<longleftrightarrow> fw = [] \<and> \<not> (\<exists>f\<in>set fs. has_non_ascii i f))"
  by (induction fs arbitrary: fw mx)
     (auto simp: Let_def has_non_ascii_def scan_lines_empty split: option.splits if_splits)

text \<open>
  C10. For every \<open>input_api\<close> and \<open>output_api\<close>, \<open>CheckChangeOnCommit\<close> returns exactly
  the results of \<open>CheckChange\<close>. When \<open>_CheckNonAscii\<close> returns its warnings,
  \<open>CheckChangeOnUpload\<close> returns the same results followed by these warnings, so the two
  entry points differ by the non-ASCII check only; the warnings are either none or the
  single prompt warning \<open>Some files contain non-ASCII characters.\<close>, and there is none
  exactly when no affected file of the checked extensions has a line that does not decode
  as ASCII. When \<open>_CheckNonAscii\<close> raises, because an affected file cannot be opened, so
  does \<open>CheckChangeOnUpload\<close>.
\<close>

theorem entry_points:
  "CheckChangeOnCommit i out = CheckChange i out \<and>
   (\<forall>warnings. CheckNonAscii i out = Inr warnings \<longrightarrow>
      CheckChangeOnUpload i out = Inr (CheckChangeOnCommit i out @ warnings) \<and>
      (warnings = [] \<or>
       (\<exists>long_text. warnings =
          [PresubmitPromptWarning out ''Some files contain non-ASCII characters.'' long_text])) \<and>
      (warnings = [] \<longleftrightarrow>
       \<not> (\<exists>f\<in>set (AffectedSourceFiles i (MakeFileFilter i (Some FILE_EXTENSIONS) None)).
            has_non_ascii i f))) \<and>
   (\<forall>e. CheckNonAscii i out = Inl e \<longrightarrow> CheckChangeOnUpload i out = Inl e)"
proof (intro conjI allI impI)
  show "CheckChangeOnCommit i out = CheckChange i out"
    by (simp add: CheckChangeOnCommit_def)
next
  fix warnings assume w: "CheckNonAscii i out = Inr warnings"
  then show "CheckChangeOnUpload i out = Inr (CheckChangeOnCommit i out @ warnings)"
    by (simp add: CheckChangeOnUpload_def CheckChangeOnCommit_def)
  let ?files = "AffectedSourceFiles i (MakeFileFilter i (Some FILE_EXTENSIONS) None)"
  from w obtain fw mx where s: "scan_files i ?files [] 0 = Inr (fw, mx)"
    by (auto simp: CheckNonAscii_def Let_def split: sum.splits)
  from w s show "warnings = [] \<or>
       (\<exists>long_text. warnings =
          [PresubmitPromptWarning out ''Some files contain non-ASCII characters.'' long_text])"
    by (auto simp: CheckNonAscii_def Let_def split: if_splits)
  from w s have "warnings = [] \<longleftrightarrow> fw = []"
    by (auto simp: CheckNonAscii_def Let_def split: if_splits)
  with scan_files_empty[OF s]
  show "warnings = [] \<longleftrightarrow> \<not> (\<exists>f\<in>set ?files. has_non_ascii i f)"
    by simp
next
  fix e assume "CheckNonAscii i out = Inl e"
  then show "CheckChangeOnUpload i out = Inl e"
    by (simp add: CheckChangeOnUpload_def)
qed

lemma str_nat_2: "str_nat (Suc (Suc 0)) = ''2''"
  by code_simp

lemma two_files_non_ascii:
  "CheckNonAscii two_files pair_output =
     Inr [(''Some files contain non-ASCII characters.'',
           ''The following files contain non-ASCII characters:'' @ newline @
           ''  a.py'' @ newline @
           ''    2: # caf'' @ [CHR 0xC3, CHR 0xA9] @ newline @ newline)]"
  by (simp add: CheckNonAscii_def two_files_def pair_output_def MakeFileFilter_def Let_def
      decodes_ascii_def rstrip_def is_space_def newline_def rjust_def digit_def
      str_nat_2)

lemma two_files_check_change: "CheckChange two_files pair_output = []"
  by (simp add: CheckChange_def CheckBannedGoAPIs_def two_files_def MakeFileFilter_def Let_def
      file_errors_def line_errors_def banned_replacements_def)

text \<open>On upload the change of the two files gets the warning, on commit it gets none.\<close>

theorem entry_points_witness:
  "CheckChangeOnCommit two_files pair_output = [] \<and>
   CheckChangeOnUpload two_files pair_output =
     Inr [(''Some files contain non-ASCII characters.'',
           ''The following files contain non-ASCII characters:'' @ newline @
           ''  a.py'' @ newline @
           ''    2: # caf'' @ [CHR 0xC3, CHR 0xA9] @ newline @ newline)]"
  using entry_points[of two_files pair_output] two_files_non_ascii two_files_check_change
  by simp

end
